theory Spec2Isabelle
  imports Complex_Main "HOL-Library.Multiset" "HOL-Library.AList"
begin

chapter \<open>The program\<close>

section \<open>Task model (core/download\_task.py)\<close>

text \<open>
  Timestamps, speeds and percentages are Python floats. Only comparisons and copies of
  them occur in the functions modelled here, so they are modelled as real numbers.
  Byte counts and counters are Python integers, modelled as \<open>int\<close>. Optional values
  (\<open>None\<close> or a value) are \<open>option\<close>s; the \<open>headers\<close> dictionary is an
  association list.
\<close>

datatype DownloadStatus =
  PENDING | DOWNLOADING | PAUSED | COMPLETED | ERROR | CANCELLED | QUEUED

record DownloadPart =
  part_number :: int
  start_byte :: int
  end_byte :: int
  part_downloaded_bytes :: int
  part_status :: DownloadStatus
  temp_file_path :: "string option"

record DownloadTask =
  task_id :: string
  url :: string
  filename :: string
  destination :: "string option"
  file_size :: int
  downloaded_bytes :: int
  status :: DownloadStatus
  created_at :: real
  started_at :: "real option"
  completed_at :: "real option"
  error_message :: "string option"
  retry_count :: int
  max_retries :: int
  supports_range_requests :: bool
  parts :: "DownloadPart list"
  num_threads :: int
  download_speed :: real
  eta :: real
  progress_percentage :: real
  content_type :: "string option"
  headers :: "(string \<times> string) list"
  checksum :: "string option"
  is_video :: bool
  video_quality :: "string option"
  scheduled_time :: "real option"
  priority :: int

text \<open>\<open>DownloadPart(i, start, end)\<close> with the dataclass defaults.\<close>

definition new_part :: "int \<Rightarrow> int \<Rightarrow> int \<Rightarrow> DownloadPart" where
  "new_part i s e =
     \<lparr>part_number = i, start_byte = s, end_byte = e, part_downloaded_bytes = 0,
      part_status = PENDING, temp_file_path = None\<rparr>"

text \<open>
  \<open>DownloadTask.__init__\<close>. The freshly generated id
  (\<open>_generate_id\<close>: twelve hex digits of an MD5 of the URL and the clock) is the
  parameter \<open>fresh_id\<close>, the clock reading is \<open>now\<close>, and
  \<open>last_segment u\<close> is \<open>unquote(urlparse(u).path.split('/')[-1])\<close>, with
  \<open>None\<close> when that raises. Python's \<open>filename or \<dots>\<close> takes the fallback for
  \<open>None\<close> and for the empty string.
\<close>

definition extract_filename_from_url ::
  "(string \<Rightarrow> string option) \<Rightarrow> string \<Rightarrow> string \<Rightarrow> string" where
  "extract_filename_from_url last_segment self_id u =
     (case last_segment u of
        None \<Rightarrow> ''download_'' @ self_id
      | Some f \<Rightarrow> if f = [] \<or> CHR ''.'' \<notin> set f then ''download_'' @ self_id else f)"

definition new_task ::
  "(string \<Rightarrow> string option) \<Rightarrow> string \<Rightarrow> real \<Rightarrow>
   string \<Rightarrow> string option \<Rightarrow> string option \<Rightarrow> DownloadTask" where
  "new_task last_segment fresh_id now u fname dest =
     \<lparr>task_id = fresh_id,
      url = u,
      filename = (case fname of
                    None \<Rightarrow> extract_filename_from_url last_segment fresh_id u
                  | Some f \<Rightarrow> if f = [] then extract_filename_from_url last_segment fresh_id u
                             else f),
      destination = dest,
      file_size = 0,
      downloaded_bytes = 0,
      status = PENDING,
      created_at = now,
      started_at = None,
      completed_at = None,
      error_message = None,
      retry_count = 0,
      max_retries = 3,
      supports_range_requests = False,
      parts = [],
      num_threads = 1,
      download_speed = 0,
      eta = 0,
      progress_percentage = 0,
      content_type = None,
      headers = [],
      checksum = None,
      is_video = False,
      video_quality = None,
      scheduled_time = None,
      priority = 0\<rparr>"

text \<open>
  The body of the \<open>for i in range(num_threads)\<close> loop of
  \<open>setup_multithread_download\<close>: the part with number \<open>i\<close>.
\<close>

definition multithread_part :: "int \<Rightarrow> int \<Rightarrow> int \<Rightarrow> DownloadPart" where
  "multithread_part num_thr fsize i =
     (let part_size = fsize div num_thr;
          start = i * part_size;
          end0 = start + part_size - 1;
          end1 = (if i = num_thr - 1 then fsize - 1 else end0)
      in new_part i start end1)"

definition setup_multithread_download :: "int \<Rightarrow> int \<Rightarrow> DownloadTask \<Rightarrow> DownloadTask" where
  "setup_multithread_download num_thr fsize t =
     (let t1 = t\<lparr>num_threads := num_thr, file_size := fsize,
                 supports_range_requests := True, parts := []\<rparr>
      in if num_thr \<le> 1
         then t1\<lparr>parts := [new_part 0 0 (fsize - 1)]\<rparr>
         else t1\<lparr>parts := map (multithread_part num_thr fsize) [0 ..  num_thr - 1]\<rparr>)"

definition start :: "real \<Rightarrow> DownloadTask \<Rightarrow> DownloadTask" where
  "start now t = t\<lparr>status := DOWNLOADING, started_at := Some now\<rparr>"

section \<open>The probe (core/download\_engine.py, \<open>_update_task_with_file_info\<close>)\<close>

text \<open>
  What \<open>HTTPClient.get_file_info\<close> returns, as far as the engine reads it, and what
  the engine copies into the task. Apart from the constructor this is the only place
  where \<open>filename\<close> is assigned: the server's name replaces the task's when the
  server gave a non-empty one and the task's is empty or starts with \<open>download_\<close>.
\<close>

record file_info =
  info_file_size :: int
  info_supports_range :: bool
  info_content_type :: string
  info_headers :: "(string \<times> string) list"
  info_filename :: "string option"

definition update_task_with_file_info :: "file_info \<Rightarrow> DownloadTask \<Rightarrow> DownloadTask" where
  "update_task_with_file_info info t =
     (let t1 = t\<lparr>file_size := info_file_size info,
                 supports_range_requests := info_supports_range info,
                 content_type := Some (info_content_type info),
                 headers := info_headers info\<rparr>
      in case info_filename info of
           None \<Rightarrow> t1
         | Some server_filename \<Rightarrow>
             if server_filename \<noteq> []
                \<and> (filename t1 = [] \<or> take 9 (filename t1) = ''download_'')
             then t1\<lparr>filename := server_filename\<rparr>
             else t1)"

section \<open>Part planning (core/download\_engine.py, \<open>_setup_download\<close>)\<close>

definition MiB :: int where
  "MiB = 1024 * 1024"

text \<open>
  The number of threads chosen at the top of \<open>_setup_download\<close>; \<open>max_threads\<close> is
  the setting \<open>max_threads_per_download\<close> (default 8).
\<close>

definition choose_num_threads :: "int \<Rightarrow> DownloadTask \<Rightarrow> int" where
  "choose_num_threads max_threads t =
     (if supports_range_requests t \<and> file_size t > MiB
      then min max_threads (max 1 (file_size t div MiB))
      else 1)"

section \<open>Temporary part files (filesystem/file\_manager.py)\<close>

text \<open>
  The file system is a map from paths to file contents. Decimal formatting of the
  part number in the f-string \<open>"{download_id}_part_{part_number}.tmp"\<close> is
  \<open>str_int\<close>.
\<close>

type_synonym filesystem = "string \<rightharpoonup> string"

fun str_nat :: "nat \<Rightarrow> string" where
  "str_nat n =
     (if n < 10 then [''0123456789'' ! n]
      else str_nat (n div 10) @ [''0123456789'' ! (n mod 10)])"

definition str_int :: "int \<Rightarrow> string" where
  "str_int i = (if i < 0 then CHR ''-'' # str_nat (nat (- i)) else str_nat (nat i))"

definition touch :: "string \<Rightarrow> filesystem \<Rightarrow> filesystem" where
  "touch p fs = (case fs p of None \<Rightarrow> fs(p \<mapsto> []) | Some c \<Rightarrow> fs)"

definition temp_file_name :: "string \<Rightarrow> string \<Rightarrow> int \<Rightarrow> string" where
  "temp_file_name temp_dir download_id pn =
     temp_dir @ ''/'' @ download_id @ ''_part_'' @ str_int pn @ ''.tmp''"

definition create_temp_file ::
  "string \<Rightarrow> string \<Rightarrow> int \<Rightarrow> filesystem \<Rightarrow> string \<times> filesystem" where
  "create_temp_file temp_dir download_id pn fs =
     (let temp_path = temp_file_name temp_dir download_id pn
      in (temp_path, touch temp_path fs))"

section \<open>Engine state and \<open>_setup_download\<close>\<close>

text \<open>
  The engine's dictionaries are association lists keyed by task id. A stop event is
  its flag. Status notifications (\<open>_notify_status_change\<close>) are collected in
  \<open>status_events\<close>, in the order they are issued; the manager's callback is applied
  to them by the caller.
\<close>

record progress_entry =
  start_time :: real
  last_update :: real
  last_bytes :: int

record DownloadEngine =
  active_downloads :: "string list"
  download_threads :: "string list"
  stop_events :: "(string \<times> bool) list"
  progress_data :: "(string \<times> progress_entry) list"
  files :: filesystem
  status_events :: "DownloadTask list"

text \<open>The loop that creates one temporary file per part, first part first.\<close>

fun create_part_files ::
  "string \<Rightarrow> string \<Rightarrow> DownloadPart list \<Rightarrow> filesystem \<Rightarrow> DownloadPart list \<times> filesystem" where
  "create_part_files temp_dir tid [] fs = ([], fs)"
| "create_part_files temp_dir tid (p # ps) fs =
     (let (path, fs1) = create_temp_file temp_dir tid (part_number p) fs;
          (ps', fs2) = create_part_files temp_dir tid ps fs1
      in (p\<lparr>temp_file_path := Some path\<rparr> # ps', fs2))"

definition notify_status_change :: "DownloadTask \<Rightarrow> DownloadEngine \<Rightarrow> DownloadEngine" where
  "notify_status_change t e = e\<lparr>status_events := status_events e @ [t]\<rparr>"

definition setup_download ::
  "int \<Rightarrow> string \<Rightarrow> real \<Rightarrow> DownloadTask \<Rightarrow> DownloadEngine \<Rightarrow> DownloadTask \<times> DownloadEngine" where
  "setup_download max_threads temp_dir now t e =
     (let num_thr = choose_num_threads max_threads t;
          t1 = setup_multithread_download num_thr (file_size t) t;
          (ps, fs1) = create_part_files temp_dir (task_id t1) (parts t1) (files e);
          t2 = t1\<lparr>parts := ps\<rparr>;
          e1 = e\<lparr>files := fs1,
                 progress_data := AList.update (task_id t2)
                   \<lparr>start_time = now, last_update = now, last_bytes = 0\<rparr> (progress_data e),
                 stop_events := AList.update (task_id t2) False (stop_events e)\<rparr>;
          t3 = start now t2
      in (t3, notify_status_change t3 e1))"

subsection \<open>The plan as a list of ranges\<close>

text \<open>
  For the proofs: the part numbers and byte ranges of a task's parts, and the list
  \<open>setup_multithread_download\<close> computes for a number of threads and a file size.
\<close>

definition byte_ranges :: "DownloadTask \<Rightarrow> (int \<times> int \<times> int) list" where
  "byte_ranges t = map (\<lambda>p. (part_number p, start_byte p, end_byte p)) (parts t)"

definition planned_ranges :: "int \<Rightarrow> int \<Rightarrow> (int \<times> int \<times> int) list" where
  "planned_ranges n fsize =
     (if n \<le> 1 then [(0, 0, fsize - 1)]
      else map (\<lambda>i. (i, i * (fsize div n),
                      if i = n - 1 then fsize - 1 else i * (fsize div n) + fsize div n - 1))
               [0 .. n - 1])"

subsection \<open>Concrete inputs\<close>

text \<open>
  A task for \<open>http://host/big.bin\<close> as the constructor builds it, after the probe
  found the given size and range support, and an engine with nothing in it.
\<close>

definition big_bin_segment :: "string \<Rightarrow> string option" where
  "big_bin_segment u = Some ''big.bin''"

definition probed_task :: "int \<Rightarrow> bool \<Rightarrow> DownloadTask" where
  "probed_task fsize ranges =
     (new_task big_bin_segment ''0123456789ab'' 1000 ''http://host/big.bin'' None
        (Some ''/home/u/Downloads''))
     \<lparr>file_size := fsize, supports_range_requests := ranges\<rparr>"

definition idle_engine :: DownloadEngine where
  "idle_engine =
     \<lparr>active_downloads = [], download_threads = [], stop_events = [], progress_data = [],
      files = Map.empty, status_events = []\<rparr>"


section \<open>The part worker (core/download\_engine.py, \<open>_download_part\<close>)\<close>

text \<open>
  The two requests of network/http\_client.py: \<open>download_range\<close> sends the header
  \<open>Range: bytes=start-end\<close>, \<open>download_full\<close> sends no \<open>Range\<close> header.
  What happens to a request is the parameter \<open>server\<close>: the body arrives whole, or
  the transfer fails (the stop event not being set) after the progress callback has
  reported some number of bytes, or the callback finds the task's stop event set after
  having reported some number of bytes (and raises).
\<close>

datatype http_request = DownloadRange string int int | DownloadFull string

datatype transfer = Complete string | NetworkError int | StoppedAt int

definition append_to_temp_file :: "string \<Rightarrow> string \<Rightarrow> filesystem \<Rightarrow> filesystem" where
  "append_to_temp_file path data fs =
     (case fs path of None \<Rightarrow> fs(path \<mapsto> data) | Some c \<Rightarrow> fs(path \<mapsto> c @ data))"

text \<open>The request a worker issues for a part; \<open>None\<close> when the part is already full.\<close>

definition part_request :: "DownloadTask \<Rightarrow> DownloadPart \<Rightarrow> http_request option" where
  "part_request t p =
     (let resume_position = part_downloaded_bytes p;
          start_b = start_byte p + resume_position
      in if start_b > end_byte p then None
         else if supports_range_requests t \<and> length (parts t) > 1
              then Some (DownloadRange (url t) start_b (end_byte p))
              else Some (DownloadFull (url t)))"

text \<open>
  The worker: the part and the file system after it has run. Opening the temporary file
  fails when the part has no path or an empty one. The aggregated progress of the task,
  which the callback also updates, is shared between the workers and is not part of this
  function.
\<close>

definition download_part ::
  "(http_request \<Rightarrow> transfer) \<Rightarrow> DownloadTask \<Rightarrow> DownloadPart \<Rightarrow> filesystem
   \<Rightarrow> DownloadPart \<times> filesystem" where
  "download_part server t p fs =
     (let p1 = p\<lparr>part_status := DOWNLOADING\<rparr>;
          resume_position = part_downloaded_bytes p
      in case part_request t p of
           None \<Rightarrow> (p1\<lparr>part_status := COMPLETED\<rparr>, fs)
         | Some req \<Rightarrow>
             (case server req of
                Complete data \<Rightarrow>
                  (let p2 = (if data = [] then p1
                             else p1\<lparr>part_downloaded_bytes := resume_position + int (length data)\<rparr>)
                   in if data = [] then (p2, fs)
                      else (case temp_file_path p of
                              None \<Rightarrow> (p2\<lparr>part_status := ERROR\<rparr>, fs)
                            | Some path \<Rightarrow>
                                if path = [] then (p2\<lparr>part_status := ERROR\<rparr>, fs)
                                else (p2\<lparr>part_downloaded_bytes :=
                                           int (length data) + resume_position,
                                         part_status := COMPLETED\<rparr>,
                                      append_to_temp_file path data fs)))
              | NetworkError n \<Rightarrow>
                  ((if n > 0 then p1\<lparr>part_downloaded_bytes := resume_position + n\<rparr> else p1)
                     \<lparr>part_status := ERROR\<rparr>, fs)
              | StoppedAt n \<Rightarrow>
                  ((if n > 0 then p1\<lparr>part_downloaded_bytes := resume_position + n\<rparr> else p1),
                   fs)))"

text \<open>
  A task with range support whose single part \<open>[0, 99]\<close> has 10 bytes on disk, and a
  server that answers a full request with all 100 bytes and a range request with the
  range asked for.
\<close>

definition resumed_part :: DownloadPart where
  "resumed_part = (new_part 0 0 99)
      \<lparr>part_downloaded_bytes := 10, part_status := PAUSED,
       temp_file_path := Some ''/tmp/DownloadManager/0123456789ab_part_0.tmp''\<rparr>"

definition resumed_task :: DownloadTask where
  "resumed_task = (probed_task 100 True)\<lparr>status := PAUSED, parts := [resumed_part]\<rparr>"

definition byte_server :: "http_request \<Rightarrow> transfer" where
  "byte_server req =
     (case req of
        DownloadFull u \<Rightarrow> Complete (replicate 100 (CHR ''x''))
      | DownloadRange u s e \<Rightarrow> Complete (replicate (nat (e - s + 1)) (CHR ''x'')))"

definition resumed_files :: filesystem where
  "resumed_files =
     [''/tmp/DownloadManager/0123456789ab_part_0.tmp'' \<mapsto> replicate 10 (CHR ''x'')]"

section \<open>Serialisation (core/download\_task.py, \<open>to_dict\<close> and \<open>from_dict\<close>)\<close>

text \<open>
  The values of the dictionary \<open>to_dict\<close> builds. \<open>from_dict\<close> stores what it
  finds under a key without looking at its type; the record of the model is typed, so a
  value of another type than the field's is reported as \<open>TypeMismatch\<close>. The
  dictionaries \<open>to_dict\<close> returns never take that branch.
\<close>

datatype pyval =
  PNone | PStr string | PInt int | PFloat real | PBool bool | PDict "(string \<times> string) list"

datatype py_error = KeyError string | ValueError string | TypeMismatch string | OverflowError

type_synonym pydict = "(string \<times> pyval) list"

definition status_value :: "DownloadStatus \<Rightarrow> string" where
  "status_value s =
     (case s of PENDING \<Rightarrow> ''pending'' | DOWNLOADING \<Rightarrow> ''downloading''
      | PAUSED \<Rightarrow> ''paused'' | COMPLETED \<Rightarrow> ''completed'' | ERROR \<Rightarrow> ''error''
      | CANCELLED \<Rightarrow> ''cancelled'' | QUEUED \<Rightarrow> ''queued'')"

definition status_of_value :: "string \<Rightarrow> py_error + DownloadStatus" where
  "status_of_value v =
     (if v = ''pending'' then Inr PENDING
      else if v = ''downloading'' then Inr DOWNLOADING
      else if v = ''paused'' then Inr PAUSED
      else if v = ''completed'' then Inr COMPLETED
      else if v = ''error'' then Inr ERROR
      else if v = ''cancelled'' then Inr CANCELLED
      else if v = ''queued'' then Inr QUEUED
      else Inl (ValueError v))"

definition opt_str :: "string option \<Rightarrow> pyval" where
  "opt_str v = (case v of None \<Rightarrow> PNone | Some s \<Rightarrow> PStr s)"

definition opt_float :: "real option \<Rightarrow> pyval" where
  "opt_float v = (case v of None \<Rightarrow> PNone | Some x \<Rightarrow> PFloat x)"

definition to_dict :: "DownloadTask \<Rightarrow> pydict" where
  "to_dict t =
     [(''id'', PStr (task_id t)),
      (''url'', PStr (url t)),
      (''filename'', PStr (filename t)),
      (''destination'', opt_str (destination t)),
      (''file_size'', PInt (file_size t)),
      (''downloaded_bytes'', PInt (downloaded_bytes t)),
      (''status'', PStr (status_value (status t))),
      (''created_at'', PFloat (created_at t)),
      (''started_at'', opt_float (started_at t)),
      (''completed_at'', opt_float (completed_at t)),
      (''error_message'', opt_str (error_message t)),
      (''retry_count'', PInt (retry_count t)),
      (''max_retries'', PInt (max_retries t)),
      (''supports_range_requests'', PBool (supports_range_requests t)),
      (''num_threads'', PInt (num_threads t)),
      (''download_speed'', PFloat (download_speed t)),
      (''eta'', PFloat (eta t)),
      (''progress_percentage'', PFloat (progress_percentage t)),
      (''content_type'', opt_str (content_type t)),
      (''headers'', PDict (headers t)),
      (''checksum'', opt_str (checksum t)),
      (''is_video'', PBool (is_video t)),
      (''video_quality'', opt_str (video_quality t)),
      (''scheduled_time'', opt_float (scheduled_time t)),
      (''priority'', PInt (priority t))]"

text \<open>
  Reading a key: \<open>data[k]\<close> raises \<open>KeyError\<close> on a missing key; \<open>data.get(k)\<close>
  gives \<open>None\<close> and \<open>data.get(k, d)\<close> gives \<open>d\<close> there.
\<close>

definition bind_err :: "py_error + 'a \<Rightarrow> ('a \<Rightarrow> py_error + 'b) \<Rightarrow> py_error + 'b" where
  "bind_err r f = (case r of Inl e \<Rightarrow> Inl e | Inr x \<Rightarrow> f x)"

definition item_str :: "pydict \<Rightarrow> string \<Rightarrow> py_error + string" where
  "item_str d k =
     (case map_of d k of None \<Rightarrow> Inl (KeyError k) | Some (PStr s) \<Rightarrow> Inr s
      | Some _ \<Rightarrow> Inl (TypeMismatch k))"

definition get_opt_str :: "pydict \<Rightarrow> string \<Rightarrow> py_error + string option" where
  "get_opt_str d k =
     (case map_of d k of None \<Rightarrow> Inr None | Some PNone \<Rightarrow> Inr None
      | Some (PStr s) \<Rightarrow> Inr (Some s) | Some _ \<Rightarrow> Inl (TypeMismatch k))"

definition get_opt_float :: "pydict \<Rightarrow> string \<Rightarrow> py_error + real option" where
  "get_opt_float d k =
     (case map_of d k of None \<Rightarrow> Inr None | Some PNone \<Rightarrow> Inr None
      | Some (PFloat x) \<Rightarrow> Inr (Some x) | Some _ \<Rightarrow> Inl (TypeMismatch k))"

definition get_int :: "pydict \<Rightarrow> string \<Rightarrow> int \<Rightarrow> py_error + int" where
  "get_int d k dflt =
     (case map_of d k of None \<Rightarrow> Inr dflt | Some (PInt i) \<Rightarrow> Inr i
      | Some _ \<Rightarrow> Inl (TypeMismatch k))"

definition get_float :: "pydict \<Rightarrow> string \<Rightarrow> real \<Rightarrow> py_error + real" where
  "get_float d k dflt =
     (case map_of d k of None \<Rightarrow> Inr dflt | Some (PFloat x) \<Rightarrow> Inr x
      | Some _ \<Rightarrow> Inl (TypeMismatch k))"

definition get_bool :: "pydict \<Rightarrow> string \<Rightarrow> bool \<Rightarrow> py_error + bool" where
  "get_bool d k dflt =
     (case map_of d k of None \<Rightarrow> Inr dflt | Some (PBool b) \<Rightarrow> Inr b
      | Some _ \<Rightarrow> Inl (TypeMismatch k))"

definition get_str :: "pydict \<Rightarrow> string \<Rightarrow> string \<Rightarrow> py_error + string" where
  "get_str d k dflt =
     (case map_of d k of None \<Rightarrow> Inr dflt | Some (PStr s) \<Rightarrow> Inr s
      | Some _ \<Rightarrow> Inl (TypeMismatch k))"

definition get_dict :: "pydict \<Rightarrow> string \<Rightarrow> py_error + (string \<times> string) list" where
  "get_dict d k =
     (case map_of d k of None \<Rightarrow> Inr [] | Some (PDict h) \<Rightarrow> Inr h
      | Some _ \<Rightarrow> Inl (TypeMismatch k))"

text \<open>
  \<open>from_dict\<close>: the constructor is called with the dictionary's \<open>url\<close>,
  \<open>filename\<close> and \<open>destination\<close>, and these three fields are not assigned again;
  every other field is then overwritten from the dictionary, in the order of the source.
\<close>

definition from_dict ::
  "(string \<Rightarrow> string option) \<Rightarrow> string \<Rightarrow> real \<Rightarrow> pydict \<Rightarrow> py_error + DownloadTask" where
  "from_dict last_segment fresh_id now d =
     bind_err (item_str d ''url'') (\<lambda>u.
     bind_err (get_opt_str d ''filename'') (\<lambda>fname.
     bind_err (get_opt_str d ''destination'') (\<lambda>dest.
     let t0 = new_task last_segment fresh_id now u fname dest in
     bind_err (item_str d ''id'') (\<lambda>v_id.
     bind_err (get_int d ''file_size'' 0) (\<lambda>v_file_size.
     bind_err (get_int d ''downloaded_bytes'' 0) (\<lambda>v_downloaded.
     bind_err (bind_err (get_str d ''status'' ''pending'') status_of_value) (\<lambda>v_status.
     bind_err (get_float d ''created_at'' now) (\<lambda>v_created.
     bind_err (get_opt_float d ''started_at'') (\<lambda>v_started.
     bind_err (get_opt_float d ''completed_at'') (\<lambda>v_completed.
     bind_err (get_opt_str d ''error_message'') (\<lambda>v_error.
     bind_err (get_int d ''retry_count'' 0) (\<lambda>v_retry.
     bind_err (get_int d ''max_retries'' 3) (\<lambda>v_max_retries.
     bind_err (get_bool d ''supports_range_requests'' False) (\<lambda>v_ranges.
     bind_err (get_int d ''num_threads'' 1) (\<lambda>v_threads.
     bind_err (get_float d ''download_speed'' 0) (\<lambda>v_speed.
     bind_err (get_float d ''eta'' 0) (\<lambda>v_eta.
     bind_err (get_float d ''progress_percentage'' 0) (\<lambda>v_progress.
     bind_err (get_opt_str d ''content_type'') (\<lambda>v_content_type.
     bind_err (get_dict d ''headers'') (\<lambda>v_headers.
     bind_err (get_opt_str d ''checksum'') (\<lambda>v_checksum.
     bind_err (get_bool d ''is_video'' False) (\<lambda>v_is_video.
     bind_err (get_opt_str d ''video_quality'') (\<lambda>v_quality.
     bind_err (get_opt_float d ''scheduled_time'') (\<lambda>v_scheduled.
     bind_err (get_int d ''priority'' 0) (\<lambda>v_priority.
     Inr (t0\<lparr>task_id := v_id,
             file_size := v_file_size,
             downloaded_bytes := v_downloaded,
             status := v_status,
             created_at := v_created,
             started_at := v_started,
             completed_at := v_completed,
             error_message := v_error,
             retry_count := v_retry,
             max_retries := v_max_retries,
             supports_range_requests := v_ranges,
             num_threads := v_threads,
             download_speed := v_speed,
             eta := v_eta,
             progress_percentage := v_progress,
             content_type := v_content_type,
             headers := v_headers,
             checksum := v_checksum,
             is_video := v_is_video,
             video_quality := v_quality,
             scheduled_time := v_scheduled,
             priority := v_priority\<rparr>))))))))))))))))))))))))))"

section \<open>Completion and merge (\<open>_complete_download\<close>, \<open>merge_temp_files\<close>)\<close>

text \<open>
  Directories are not modelled: a path exists when it holds a file.
  \<open>merge_temp_files\<close> opens the output with mode \<open>'wb'\<close>, which creates the file
  or truncates the one that is there, and then copies the temporary files into it in the
  order given; a missing temporary file raises, with the output left as written so far.
  The result is the error message, or the new file system.
\<close>

fun copy_into :: "string \<Rightarrow> string list \<Rightarrow> filesystem \<Rightarrow> string + filesystem" where
  "copy_into out [] fs = Inr fs"
| "copy_into out (p # ps) fs =
     (case fs p of
        None \<Rightarrow> Inl (''Temporary file not found: '' @ p)
      | Some c \<Rightarrow> copy_into out ps (append_to_temp_file out c fs))"

definition merge_temp_files :: "string list \<Rightarrow> string \<Rightarrow> filesystem \<Rightarrow> string + filesystem" where
  "merge_temp_files temp_files output_path fs =
     (case copy_into output_path temp_files (fs(output_path \<mapsto> [])) of
        Inl msg \<Rightarrow> Inl (''Failed to merge files: '' @ msg)
      | Inr fs' \<Rightarrow> Inr fs')"

text \<open>\<open>_complete_download\<close> passes no checksum, so only existence and size are checked.\<close>

definition verify_file_integrity :: "string \<Rightarrow> int \<Rightarrow> filesystem \<Rightarrow> bool" where
  "verify_file_integrity file_path expected_size fs =
     (case fs file_path of None \<Rightarrow> False | Some c \<Rightarrow> int (length c) = expected_size)"

fun cleanup_temp_files :: "string list \<Rightarrow> filesystem \<Rightarrow> filesystem" where
  "cleanup_temp_files [] fs = fs"
| "cleanup_temp_files (p # ps) fs = cleanup_temp_files ps (fs(p := None))"

definition complete :: "real \<Rightarrow> DownloadTask \<Rightarrow> DownloadTask" where
  "complete now t =
     t\<lparr>status := COMPLETED, completed_at := Some now, progress_percentage := 100,
       downloaded_bytes := file_size t\<rparr>"

definition error :: "string \<Rightarrow> DownloadTask \<Rightarrow> DownloadTask" where
  "error message t = t\<lparr>status := ERROR, error_message := Some message\<rparr>"

text \<open>
  The temporary files that are set (not \<open>None\<close>, not empty) and exist, in the order of the
  parts.
\<close>

definition existing_temp_files :: "DownloadTask \<Rightarrow> filesystem \<Rightarrow> string list" where
  "existing_temp_files t fs =
     concat (map (\<lambda>p. case temp_file_path p of
                          None \<Rightarrow> []
                        | Some path \<Rightarrow> if path \<noteq> [] \<and> fs path \<noteq> None then [path] else [])
                 (parts t))"

text \<open>
  \<open>_complete_download\<close>. \<open>path_join\<close> is \<open>os.path.join\<close> and
  \<open>category_directory\<close> is the file manager's \<open>get_file_category_directory\<close>,
  used when the task has no destination.
\<close>

definition complete_download ::
  "(string \<Rightarrow> string \<Rightarrow> string) \<Rightarrow> (string \<Rightarrow> string) \<Rightarrow> real \<Rightarrow>
   DownloadTask \<Rightarrow> DownloadEngine \<Rightarrow> DownloadTask \<times> DownloadEngine" where
  "complete_download path_join category_directory now t e =
     (let temp_files = existing_temp_files t (files e)
      in if temp_files = [] then (error ''No temporary files found'' t, e)
         else
           let dest = (case destination t of
                         None \<Rightarrow> category_directory (filename t)
                       | Some d \<Rightarrow> if d = [] then category_directory (filename t) else d);
               t1 = t\<lparr>destination := Some dest\<rparr>;
               final_path = path_join dest (filename t1)
           in case merge_temp_files temp_files final_path (files e) of
                Inl msg \<Rightarrow> (error (''Failed to complete download: '' @ msg) t1, e)
              | Inr fs1 \<Rightarrow>
                  if verify_file_integrity final_path (file_size t1) fs1
                  then let e1 = e\<lparr>files := cleanup_temp_files temp_files fs1\<rparr>;
                           t2 = complete now t1
                       in (t2, notify_status_change t2 e1)
                  else (error ''File integrity verification failed'' t1, e\<lparr>files := fs1\<rparr>))"

text \<open>
  A task whose two parts are on disk, with an older file already at
  \<open>/home/u/Downloads/big.bin\<close>.
\<close>

definition posix_join :: "string \<Rightarrow> string \<Rightarrow> string" where
  "posix_join d f = d @ ''/'' @ f"

definition downloads_directory :: "string \<Rightarrow> string" where
  "downloads_directory f = ''/home/u/Downloads''"

definition finished_task :: DownloadTask where
  "finished_task = (probed_task 100 True)
     \<lparr>status := DOWNLOADING,
      parts := [(new_part 0 0 59)\<lparr>part_downloaded_bytes := 60, part_status := COMPLETED,
                   temp_file_path := Some ''/tmp/DownloadManager/0123456789ab_part_0.tmp''\<rparr>,
                (new_part 1 60 99)\<lparr>part_downloaded_bytes := 40, part_status := COMPLETED,
                   temp_file_path := Some ''/tmp/DownloadManager/0123456789ab_part_1.tmp''\<rparr>]\<rparr>"

definition finished_engine :: DownloadEngine where
  "finished_engine = idle_engine
     \<lparr>active_downloads := [''0123456789ab''],
      files := [''/tmp/DownloadManager/0123456789ab_part_0.tmp'' \<mapsto> replicate 60 (CHR ''a''),
                ''/tmp/DownloadManager/0123456789ab_part_1.tmp'' \<mapsto> replicate 40 (CHR ''b''),
                ''/home/u/Downloads/big.bin'' \<mapsto> ''an older file'']\<rparr>"

subsection \<open>The conflict resolver the merge does not call\<close>

text \<open>
  \<open>_resolve_filename_conflict\<close> is called by \<open>move_to_final_location\<close> only, which
  the engine never calls. \<open>split_path\<close> gives a path's \<open>parent\<close>, \<open>stem\<close> and
  \<open>suffix\<close> (pathlib). The \<open>while True\<close> loop over the counter need not end when
  every candidate exists, so it is a partial function: \<open>None\<close> is not returning.
\<close>

definition numbered_name :: "string \<Rightarrow> string \<Rightarrow> string \<Rightarrow> nat \<Rightarrow> string" where
  "numbered_name directory base_name extension counter =
     directory @ ''/'' @ base_name @ '' ('' @ str_nat counter @ '')'' @ extension"

partial_function (option) first_free_name ::
  "(string \<Rightarrow> bool) \<Rightarrow> string \<Rightarrow> string \<Rightarrow> string \<Rightarrow> nat \<Rightarrow> string option" where
  "first_free_name path_exists directory base_name extension counter =
     (if \<not> path_exists (numbered_name directory base_name extension counter)
      then Some (numbered_name directory base_name extension counter)
      else first_free_name path_exists directory base_name extension (counter + 1))"

definition resolve_filename_conflict ::
  "(string \<Rightarrow> string \<times> string \<times> string) \<Rightarrow> filesystem \<Rightarrow> string \<Rightarrow> string option" where
  "resolve_filename_conflict split_path fs file_path =
     (if fs file_path = None then Some file_path
      else case split_path file_path of
             (directory, base_name, extension) \<Rightarrow>
               first_free_name (\<lambda>p. fs p \<noteq> None) directory base_name extension 1)"

definition split_big_bin :: "string \<Rightarrow> string \<times> string \<times> string" where
  "split_big_bin p = (''/home/u/Downloads'', ''big'', ''.bin'')"

section \<open>Binary heaps (Python's \<open>heapq\<close>)\<close>

text \<open>
  The scheduler keeps its entries with \<open>heapq\<close>, and the manager's
  \<open>queue.PriorityQueue\<close> keeps its entries with \<open>heappush\<close> and \<open>heappop\<close>.
  Both are Python's standard library, not code of the repository; the functions below
  follow \<open>Lib/heapq.py\<close> of CPython line by line, with the comparison \<open>__lt__\<close> of
  the entries as the parameter \<open>lt\<close>. The internal functions are only called with
  positions inside the list.
\<close>

function siftdown_loop ::
  "('a \<Rightarrow> 'a \<Rightarrow> bool) \<Rightarrow> 'a list \<Rightarrow> nat \<Rightarrow> nat \<Rightarrow> 'a \<Rightarrow> 'a list" where
  "siftdown_loop lt heap startpos pos newitem =
     (if pos > startpos
      then (let parentpos = (pos - 1) div 2;
                parent = heap ! parentpos
            in if lt newitem parent
               then siftdown_loop lt (heap[pos := parent]) startpos parentpos newitem
               else heap[pos := newitem])
      else heap[pos := newitem])"
  by pat_completeness auto

termination
  by (relation "measure (\<lambda>(lt, heap, startpos, pos, newitem). pos)") auto

declare siftdown_loop.simps [simp del]

definition siftdown :: "('a \<Rightarrow> 'a \<Rightarrow> bool) \<Rightarrow> 'a list \<Rightarrow> nat \<Rightarrow> nat \<Rightarrow> 'a list" where
  "siftdown lt heap startpos pos = siftdown_loop lt heap startpos pos (heap ! pos)"

text \<open>
  The loop of \<open>_siftup\<close>: the smaller child moves up until a leaf is reached; the
  result is the list and the position of the leaf.
\<close>

function siftup_loop ::
  "('a \<Rightarrow> 'a \<Rightarrow> bool) \<Rightarrow> 'a list \<Rightarrow> nat \<Rightarrow> nat \<Rightarrow> 'a list \<times> nat" where
  "siftup_loop lt heap endpos pos =
     (let childpos = 2 * pos + 1
      in if childpos < endpos
         then (let rightpos = childpos + 1;
                   childpos' = (if rightpos < endpos \<and> \<not> lt (heap ! childpos) (heap ! rightpos)
                                then rightpos else childpos)
               in siftup_loop lt (heap[pos := heap ! childpos']) endpos childpos')
         else (heap, pos))"
  by pat_completeness auto

termination
  by (relation "measure (\<lambda>(lt, heap, endpos, pos). endpos - pos)") (auto simp: Let_def)

declare siftup_loop.simps [simp del]

definition siftup :: "('a \<Rightarrow> 'a \<Rightarrow> bool) \<Rightarrow> 'a list \<Rightarrow> nat \<Rightarrow> 'a list" where
  "siftup lt heap pos =
     (let endpos = length heap;
          startpos = pos;
          newitem = heap ! pos;
          (heap1, pos1) = siftup_loop lt heap endpos pos
      in siftdown lt (heap1[pos1 := newitem]) startpos pos1)"

definition heappush :: "('a \<Rightarrow> 'a \<Rightarrow> bool) \<Rightarrow> 'a list \<Rightarrow> 'a \<Rightarrow> 'a list" where
  "heappush lt heap item = siftdown lt (heap @ [item]) 0 (length heap)"

text \<open>\<open>heappop\<close> raises \<open>IndexError\<close> on the empty list: the result \<open>None\<close>.\<close>

definition heappop :: "('a \<Rightarrow> 'a \<Rightarrow> bool) \<Rightarrow> 'a list \<Rightarrow> ('a \<times> 'a list) option" where
  "heappop lt heap =
     (if heap = [] then None
      else (let lastelt = last heap;
                heap1 = butlast heap
            in if heap1 \<noteq> []
               then (let returnitem = heap1 ! 0
                     in Some (returnitem, siftup lt (heap1[0 := lastelt]) 0))
               else Some (lastelt, heap1)))"

definition heapify :: "('a \<Rightarrow> 'a \<Rightarrow> bool) \<Rightarrow> 'a list \<Rightarrow> 'a list" where
  "heapify lt x = fold (\<lambda>i h. siftup lt h i) (rev [0 ..< length x div 2]) x"

subsection \<open>The heap order\<close>

text \<open>
  For the proofs, the comparison is that of a key: \<open>lt a b = (k a < k b)\<close>. A list is
  heap ordered when no entry has a smaller key than its parent, the parent of position
  \<open>i\<close> being \<open>(i - 1) div 2\<close>. \<open>ordered_but\<close> and \<open>ordered_around\<close> are the
  invariants of the two loops: the order may fail between a position and its parent, or
  around a position whose entry is on its way down.
\<close>

definition heap_ordered :: "('a \<Rightarrow> 'k::linorder) \<Rightarrow> 'a list \<Rightarrow> bool" where
  "heap_ordered k h = (\<forall>i. 0 < i \<and> i < length h \<longrightarrow> k (h ! ((i - 1) div 2)) \<le> k (h ! i))"

definition ordered_but :: "('a \<Rightarrow> 'k::linorder) \<Rightarrow> 'a list \<Rightarrow> nat \<Rightarrow> bool" where
  "ordered_but k g pos =
     ((\<forall>i. 0 < i \<and> i < length g \<and> i \<noteq> pos \<longrightarrow> k (g ! ((i - 1) div 2)) \<le> k (g ! i))
      \<and> (0 < pos \<longrightarrow>
           (\<forall>c. 0 < c \<and> c < length g \<and> (c - 1) div 2 = pos
                \<longrightarrow> k (g ! ((pos - 1) div 2)) \<le> k (g ! c))))"

definition ordered_around :: "('a \<Rightarrow> 'k::linorder) \<Rightarrow> 'a list \<Rightarrow> nat \<Rightarrow> bool" where
  "ordered_around k g pos =
     ((\<forall>i. 0 < i \<and> i < length g \<and> i \<noteq> pos \<and> (i - 1) div 2 \<noteq> pos
           \<longrightarrow> k (g ! ((i - 1) div 2)) \<le> k (g ! i))
      \<and> (0 < pos \<longrightarrow>
           (\<forall>c. 0 < c \<and> c < length g \<and> (c - 1) div 2 = pos
                \<longrightarrow> k (g ! ((pos - 1) div 2)) \<le> k (g ! c))))"

section \<open>Scheduler (core/scheduler.py)\<close>

text \<open>
  Task objects are shared: the manager's table, its queue and the scheduler's entries
  all refer to the same object, and a field written through one reference is seen
  through the others. The model keeps the objects in a store indexed by references;
  \<open>ScheduledItem.task\<close> is a reference.
\<close>

type_synonym task_ref = nat

type_synonym task_store = "task_ref \<Rightarrow> DownloadTask"

record ScheduledItem =
  item_scheduled_time :: real
  item_task :: task_ref

text \<open>\<open>ScheduledItem.__lt__\<close>.\<close>

definition scheduled_item_lt :: "ScheduledItem \<Rightarrow> ScheduledItem \<Rightarrow> bool" where
  "scheduled_item_lt a b = (item_scheduled_time a < item_scheduled_time b)"

text \<open>
  The scheduler owns one lock: \<open>self.lock = threading.Lock()\<close>, and
  \<open>self.condition = threading.Condition(self.lock)\<close> is built on that same lock.
  \<open>threading.Lock\<close> is not reentrant: a thread that enters \<open>with self.condition:\<close>
  while it already holds the lock waits for itself and never continues. The parameter
  \<open>held\<close> of the operations says whether the calling thread already holds the lock;
  it is \<open>False\<close> for every call from outside the scheduler. An operation that
  never continues has no result (\<open>None\<close>). \<open>notify_count\<close> counts the calls of
  \<open>condition.notify()\<close>, which wake the scheduler's worker.
\<close>

record DownloadScheduler =
  scheduled_downloads :: "ScheduledItem list"
  is_running :: bool
  notify_count :: nat

definition new_scheduler :: DownloadScheduler where
  "new_scheduler = \<lparr>scheduled_downloads = [], is_running = False, notify_count = 0\<rparr>"

text \<open>
  \<open>schedule_download\<close>. Python's \<open>not task.scheduled_time\<close> holds for \<open>None\<close>
  and for \<open>0.0\<close>. The test comes before the lock is taken.
\<close>

definition schedule_download ::
  "bool \<Rightarrow> real \<Rightarrow> task_store \<Rightarrow> task_ref \<Rightarrow> DownloadScheduler
   \<Rightarrow> (bool \<times> DownloadScheduler) option" where
  "schedule_download held now store r s =
     (case scheduled_time (store r) of
        None \<Rightarrow> Some (False, s)
      | Some st \<Rightarrow>
          if st = 0 \<or> st \<le> now then Some (False, s)
          else if held then None
          else Some (True,
                 s\<lparr>scheduled_downloads :=
                      heappush scheduled_item_lt (scheduled_downloads s)
                        \<lparr>item_scheduled_time = st, item_task = r\<rparr>,
                   notify_count := notify_count s + 1\<rparr>))"

text \<open>
  \<open>unschedule_download\<close>: the first entry whose task has the id is deleted and the list
  is heapified again.
\<close>

fun find_index :: "('a \<Rightarrow> bool) \<Rightarrow> 'a list \<Rightarrow> nat option" where
  "find_index P [] = None"
| "find_index P (x # xs) =
     (if P x then Some 0 else map_option Suc (find_index P xs))"

definition delete_at :: "nat \<Rightarrow> 'a list \<Rightarrow> 'a list" where
  "delete_at i xs = take i xs @ drop (Suc i) xs"

definition unschedule_download ::
  "bool \<Rightarrow> task_store \<Rightarrow> string \<Rightarrow> DownloadScheduler \<Rightarrow> (bool \<times> DownloadScheduler) option" where
  "unschedule_download held store download_id s =
     (if held then None
      else case find_index (\<lambda>item. task_id (store (item_task item)) = download_id)
                  (scheduled_downloads s) of
             None \<Rightarrow> Some (False, s)
           | Some i \<Rightarrow>
               Some (True,
                 s\<lparr>scheduled_downloads :=
                      heapify scheduled_item_lt (delete_at i (scheduled_downloads s))\<rparr>))"

text \<open>
  \<open>reschedule_download\<close> takes the lock, and for the first entry with the id calls
  \<open>unschedule_download\<close> and \<open>schedule_download\<close> while holding it.
\<close>

definition reschedule_download ::
  "bool \<Rightarrow> real \<Rightarrow> task_store \<Rightarrow> string \<Rightarrow> real \<Rightarrow> DownloadScheduler
   \<Rightarrow> (bool \<times> task_store \<times> DownloadScheduler) option" where
  "reschedule_download held now store download_id new_time s =
     (if held then None
      else
        case find (\<lambda>item. task_id (store (item_task item)) = download_id)
               (scheduled_downloads s) of
          None \<Rightarrow> Some (False, store, s)
        | Some item \<Rightarrow>
            (case unschedule_download True store download_id s of
               None \<Rightarrow> None
             | Some (removed, s2) \<Rightarrow>
                 let store' = store(item_task item :=
                                (store (item_task item))\<lparr>scheduled_time := Some new_time\<rparr>)
                 in case schedule_download True now store' (item_task item) s2 of
                      None \<Rightarrow> None
                    | Some (scheduled, s3) \<Rightarrow> Some (scheduled, store', s3)))"

text \<open>
  Three tasks in a store: number 0 is scheduled at 5000, number 1 at 500, every other
  one not at all; the clock reads 1000.
\<close>

definition example_store :: task_store where
  "example_store r =
     (probed_task 100 True)
       \<lparr>task_id := (if r = 0 then ''0123456789ab'' else ''ba9876543210''),
        scheduled_time := (if r = 0 then Some 5000 else if r = 1 then Some 500 else None)\<rparr>"

definition scheduler_with_entry :: DownloadScheduler where
  "scheduler_with_entry =
     new_scheduler\<lparr>scheduled_downloads := [\<lparr>item_scheduled_time = 5000, item_task = 0\<rparr>],
                   is_running := True, notify_count := 1\<rparr>"

section \<open>Persistence (database/db\_manager.py, \<open>save_download\<close>)\<close>

text \<open>
  The table \<open>downloads\<close> has the task id as primary key; a row holds the fields
  \<open>to_dict\<close> gives, and the rows of \<open>download_parts\<close> belong to it. A row is kept
  as the task it stores.
\<close>

type_synonym database = "(string \<times> DownloadTask) list"

text \<open>
  What the SQLite library does with the file, as far as the program sees it: it works,
  or the file cannot be opened (\<open>sqlite3.connect\<close> raises \<open>OperationalError\<close>), or
  it can be read but not written (the first \<open>INSERT\<close> raises
  \<open>OperationalError\<close>).
\<close>

datatype sqlite_state = Working | CannotOpen | CannotWrite

text \<open>
  A Python \<open>int\<close> is bound to a statement as a signed 64-bit \<open>INTEGER\<close>; for a
  value outside that range \<open>execute\<close> raises \<open>OverflowError\<close>, which is not an
  \<open>sqlite3.Error\<close>. The integers of the \<open>INSERT\<close> into \<open>downloads\<close> and of the
  \<open>INSERT\<close> of one part:
\<close>

definition sqlite_integer :: "int \<Rightarrow> bool" where
  "sqlite_integer n = (- (2 ^ 63) \<le> n \<and> n < 2 ^ 63)"

definition task_integers :: "DownloadTask \<Rightarrow> int list" where
  "task_integers t =
     [file_size t, downloaded_bytes t, retry_count t, max_retries t, num_threads t, priority t]"

definition part_integers :: "DownloadPart \<Rightarrow> int list" where
  "part_integers part =
     [part_number part, start_byte part, end_byte part, part_downloaded_bytes part]"

text \<open>
  The loop that inserts the parts, after the parts the table had for the task were
  deleted: \<open>numbers\<close> are the part numbers inserted so far. A second part with the same
  number violates \<open>UNIQUE (download_id, part_number)\<close> and raises
  \<open>IntegrityError\<close>, an \<open>sqlite3.Error\<close>: the result \<open>False\<close>.
\<close>

fun insert_parts :: "DownloadPart list \<Rightarrow> int list \<Rightarrow> py_error + bool" where
  "insert_parts [] numbers = Inr True"
| "insert_parts (part # rest) numbers =
     (if \<not> list_all sqlite_integer (part_integers part) then Inl OverflowError
      else if part_number part \<in> set numbers then Inr False
      else insert_parts rest (part_number part # numbers))"

text \<open>
  The table after a \<open>save_download\<close> that was committed: the row of the task's id is
  replaced, and its parts are replaced only when the task has parts.
\<close>

definition store_row :: "DownloadTask \<Rightarrow> database \<Rightarrow> database" where
  "store_row t rows =
     AList.update (task_id t)
       (if parts t \<noteq> [] then t
        else t\<lparr>parts := (case map_of rows (task_id t) of None \<Rightarrow> [] | Some old \<Rightarrow> parts old)\<rparr>)
       rows"

text \<open>
  \<open>save_download\<close>. The method catches \<open>sqlite3.Error\<close>, prints it and returns
  \<open>False\<close>; an \<open>OverflowError\<close> leaves the method (\<open>Inl\<close>). In both cases the
  connection is closed without a commit, so the table is as it was.
\<close>

definition save_download ::
  "sqlite_state \<Rightarrow> DownloadTask \<Rightarrow> database \<Rightarrow> py_error + bool \<times> database" where
  "save_download sqlite t rows =
     (if sqlite = CannotOpen then Inr (False, rows)
      else if \<not> list_all sqlite_integer (task_integers t) then Inl OverflowError
      else if sqlite = CannotWrite then Inr (False, rows)
      else case (if parts t \<noteq> [] then insert_parts (parts t) [] else Inr True) of
             Inl e \<Rightarrow> Inl e
           | Inr inserted \<Rightarrow>
               if inserted then Inr (True, store_row t rows) else Inr (False, rows))"

text \<open>
  When \<open>save_download\<close> raises, and when it stores the row.
\<close>

definition save_raises :: "sqlite_state \<Rightarrow> DownloadTask \<Rightarrow> bool" where
  "save_raises sqlite t =
     (sqlite \<noteq> CannotOpen
      \<and> (\<not> list_all sqlite_integer (task_integers t)
         \<or> (sqlite = Working \<and> parts t \<noteq> [] \<and> insert_parts (parts t) [] = Inl OverflowError)))"

definition storable :: "DownloadTask \<Rightarrow> bool" where
  "storable t =
     (list_all sqlite_integer (task_integers t)
      \<and> (parts t \<noteq> [] \<longrightarrow> insert_parts (parts t) [] = Inr True))"

text \<open>
  The database manager owns one lock, \<open>self.lock = threading.Lock()\<close>, and every
  operation works inside \<open>with self._get_connection()\<close>, which holds that lock until
  the block is left. As with the scheduler's lock, a thread that enters the block while
  it already holds the lock never continues; \<open>held\<close> says whether the caller of
  \<open>load_download\<close> holds it, and \<open>None\<close> is not returning.

  \<open>load_download\<close> finds the row, rebuilds the task with \<open>from_dict\<close> and
  attaches the row's parts; the inner result is \<open>None\<close> when there is no such row, and
  when the file cannot be opened (the \<open>sqlite3.Error\<close> is caught).
  (\<open>from_dict\<close> does not fail on a row \<open>save_download\<close> wrote.)
\<close>

definition load_download ::
  "bool \<Rightarrow> sqlite_state \<Rightarrow> (string \<Rightarrow> string option) \<Rightarrow> string \<Rightarrow> real \<Rightarrow> string
   \<Rightarrow> database \<Rightarrow> DownloadTask option option" where
  "load_download held sqlite url_segment new_id now download_id rows =
     (if held then None
      else if sqlite = CannotOpen then Some None
      else Some (case map_of rows download_id of
                   None \<Rightarrow> None
                 | Some row \<Rightarrow>
                     (case from_dict url_segment new_id now (to_dict row) of
                        Inl e \<Rightarrow> None
                      | Inr t \<Rightarrow> Some (t\<lparr>parts := parts row\<rparr>))))"

text \<open>
  \<open>load_all_downloads\<close> selects the ids in the order of \<open>created_at\<close>, latest
  first, and calls \<open>load_download\<close> for each of them from inside its own
  \<open>with self._get_connection()\<close> block, that is, with the lock held. When the file
  cannot be opened the block is not entered: the error is caught and the empty list
  returned.
\<close>

definition ids_latest_first :: "database \<Rightarrow> string list" where
  "ids_latest_first rows = map fst (sort_key (\<lambda>row. - created_at (snd row)) rows)"

fun load_each ::
  "bool \<Rightarrow> sqlite_state \<Rightarrow> (string \<Rightarrow> string option) \<Rightarrow> string \<Rightarrow> real \<Rightarrow> string list
   \<Rightarrow> database \<Rightarrow> DownloadTask list option" where
  "load_each held sqlite url_segment new_id now [] rows = Some []"
| "load_each held sqlite url_segment new_id now (download_id # ids) rows =
     (case load_download held sqlite url_segment new_id now download_id rows of
        None \<Rightarrow> None
      | Some found \<Rightarrow>
          (case load_each held sqlite url_segment new_id now ids rows of
             None \<Rightarrow> None
           | Some downloads \<Rightarrow>
               Some ((case found of None \<Rightarrow> [] | Some download \<Rightarrow> [download]) @ downloads)))"

definition load_all_downloads ::
  "sqlite_state \<Rightarrow> (string \<Rightarrow> string option) \<Rightarrow> string \<Rightarrow> real \<Rightarrow> database
   \<Rightarrow> DownloadTask list option" where
  "load_all_downloads sqlite url_segment new_id now rows =
     (if sqlite = CannotOpen then Some []
      else load_each True sqlite url_segment new_id now (ids_latest_first rows) rows)"

section \<open>Cancelling in the engine (\<open>DownloadEngine.cancel_download\<close>)\<close>

definition cancel :: "DownloadTask \<Rightarrow> DownloadTask" where
  "cancel t = t\<lparr>status := CANCELLED\<rparr>"

text \<open>
  \<open>_cleanup_download\<close>: the temporary files of the parts that have one are removed and
  the task's entries leave the engine's tables.
\<close>

definition cleanup_download :: "DownloadTask \<Rightarrow> DownloadEngine \<Rightarrow> DownloadEngine" where
  "cleanup_download t e =
     (let temp_files = concat (map (\<lambda>p. case temp_file_path p of
                                           None \<Rightarrow> []
                                         | Some path \<Rightarrow> if path \<noteq> [] then [path] else [])
                                  (parts t))
      in e\<lparr>files := cleanup_temp_files temp_files (files e),
            progress_data := AList.delete (task_id t) (progress_data e),
            download_threads := removeAll (task_id t) (download_threads e),
            stop_events := AList.delete (task_id t) (stop_events e)\<rparr>)"

text \<open>
  The stop event is set, the worker threads are joined (no change of the state
  modelled here), the download is cleaned up, and the task is cancelled and announced.
\<close>

definition engine_cancel_download ::
  "DownloadTask \<Rightarrow> DownloadEngine \<Rightarrow> bool \<times> DownloadTask \<times> DownloadEngine" where
  "engine_cancel_download t e =
     (let e1 = (case map_of (stop_events e) (task_id t) of
                  None \<Rightarrow> e
                | Some flag \<Rightarrow> e\<lparr>stop_events := AList.update (task_id t) True (stop_events e)\<rparr>);
          e2 = cleanup_download t e1;
          t1 = cancel t
      in (True, t1, notify_status_change t1 e2))"

section \<open>Manager (core/download\_manager.py)\<close>

record QueuedDownload =
  qd_priority :: int
  qd_task :: task_ref

text \<open>\<open>QueuedDownload.__lt__\<close>: the entry with the higher priority is the smaller one.\<close>

definition queued_download_lt :: "QueuedDownload \<Rightarrow> QueuedDownload \<Rightarrow> bool" where
  "queued_download_lt a b = (qd_priority a > qd_priority b)"

text \<open>
  \<open>PriorityQueue.put\<close> and \<open>PriorityQueue.get\<close> on the queue's list (the queue is
  unbounded, so \<open>put\<close> never waits); \<open>get(timeout=1.0)\<close> on an empty queue raises
  \<open>Empty\<close> after the timeout: the result \<open>None\<close>.
\<close>

definition queue_put :: "QueuedDownload list \<Rightarrow> QueuedDownload \<Rightarrow> QueuedDownload list" where
  "queue_put queue item = heappush queued_download_lt queue item"

definition queue_get ::
  "QueuedDownload list \<Rightarrow> (QueuedDownload \<times> QueuedDownload list) option" where
  "queue_get queue = heappop queued_download_lt queue"

text \<open>
  The manager's dictionaries are association lists from task ids to references;
  \<open>download_queue\<close> is the list inside the \<open>PriorityQueue\<close>, kept with
  \<open>heappush\<close> and \<open>heappop\<close>. \<open>callback_log\<close> holds, in order, the task as each
  registered status callback saw it, and \<open>notifier_log\<close> the tasks handed to the
  notifier. \<open>db\<close> is the table of the database manager and \<open>db_state\<close> the state
  of the database file.
\<close>

record DownloadManager =
  objects :: task_store
  next_ref :: task_ref
  all_downloads :: "(string \<times> task_ref) list"
  active :: "(string \<times> task_ref) list"
  download_queue :: "QueuedDownload list"
  scheduler :: DownloadScheduler
  engine :: DownloadEngine
  db :: database
  db_state :: sqlite_state
  callback_log :: "DownloadTask list"
  notifier_log :: "DownloadTask list"

text \<open>
  What \<open>add_download\<close> takes from outside: \<open>validators.url\<close>, the URL parsing of
  the constructor, the id the constructor generates, the clock, the settings
  \<open>enable_video_detection\<close> and \<open>download_directory\<close>, and the video detector (an
  external collaborator), whose answer is \<open>None\<close> or a quality and a direct URL.
\<close>

record video_info =
  quality :: "string option"
  direct_url :: "string option"

record environment =
  env_url_valid :: "string \<Rightarrow> bool"
  env_last_segment :: "string \<Rightarrow> string option"
  env_fresh_id :: string
  env_clock :: real
  env_enable_video_detection :: bool
  env_detect_video :: "string \<Rightarrow> video_info option"
  env_download_directory :: string

datatype add_error = InvalidURL | DuplicateURL | Raised py_error

definition get_download :: "string \<Rightarrow> DownloadManager \<Rightarrow> task_ref option" where
  "get_download download_id m = map_of (all_downloads m) download_id"

text \<open>
  \<open>self.db_manager.save_download(task)\<close> as the manager calls it, never looking at
  the value returned: the manager after the call, or the exception that leaves it.
\<close>

definition db_save :: "task_ref \<Rightarrow> DownloadManager \<Rightarrow> py_error + DownloadManager" where
  "db_save r m =
     (case save_download (db_state m) (objects m r) (db m) of
        Inl e \<Rightarrow> Inl e
      | Inr (saved, rows) \<Rightarrow> Inr (m\<lparr>db := rows\<rparr>))"

definition notify_status_callbacks :: "task_ref \<Rightarrow> DownloadManager \<Rightarrow> DownloadManager" where
  "notify_status_callbacks r m = m\<lparr>callback_log := callback_log m @ [objects m r]\<rparr>"

definition set_status :: "task_ref \<Rightarrow> DownloadStatus \<Rightarrow> DownloadManager \<Rightarrow> DownloadManager" where
  "set_status r st m = m\<lparr>objects := (objects m)(r := (objects m r)\<lparr>status := st\<rparr>)\<rparr>"

text \<open>\<open>_is_duplicate_url\<close>.\<close>

definition is_duplicate_url :: "string \<Rightarrow> DownloadManager \<Rightarrow> bool" where
  "is_duplicate_url u m =
     list_ex (\<lambda>r. url (objects m r) = u)
       (filter (\<lambda>r. status (objects m r) \<noteq> COMPLETED \<and> status (objects m r) \<noteq> CANCELLED)
          (map snd (all_downloads m)))"

text \<open>
  \<open>_queue_download\<close>. An exception leaves the method with the manager as it is at
  that moment: the result \<open>Inl\<close> holds both.
\<close>

definition queue_download ::
  "task_ref \<Rightarrow> DownloadManager \<Rightarrow> py_error \<times> DownloadManager + DownloadManager" where
  "queue_download r m =
     (let queued_download = \<lparr>qd_priority = priority (objects m r), qd_task = r\<rparr>;
          m1 = m\<lparr>download_queue := queue_put (download_queue m) queued_download\<rparr>;
          m2 = set_status r QUEUED m1
      in case db_save r m2 of
           Inl e \<Rightarrow> Inl (e, m2)
         | Inr m3 \<Rightarrow> Inr (notify_status_callbacks r m3))"

text \<open>
  \<open>_on_status_change\<close>, the status callback the manager gives the engine.
\<close>

definition on_status_change ::
  "task_ref \<Rightarrow> DownloadManager \<Rightarrow> py_error \<times> DownloadManager + DownloadManager" where
  "on_status_change r m =
     (case db_save r m of
        Inl e \<Rightarrow> Inl (e, m)
      | Inr m1 \<Rightarrow>
          (let t = objects m1 r;
               m2 = (if status t = COMPLETED \<or> status t = CANCELLED \<or> status t = ERROR
                     then (let m1' = m1\<lparr>active := AList.delete (task_id t) (active m1)\<rparr>
                           in if status t = COMPLETED \<or> status t = ERROR
                              then m1'\<lparr>notifier_log := notifier_log m1' @ [t]\<rparr>
                              else m1')
                     else m1)
           in Inr (notify_status_callbacks r m2)))"

text \<open>
  \<open>add_download\<close>, in three pieces. First the task as it is before it is saved: the
  constructor's task with the schedule and the priority, the video detector's findings
  when detection is enabled, and the default destination when none was given.
\<close>

definition prepared_task ::
  "environment \<Rightarrow> string \<Rightarrow> string option \<Rightarrow> string option \<Rightarrow> real option \<Rightarrow> int
   \<Rightarrow> DownloadTask" where
  "prepared_task env u fname dest sched prio =
     (let t0 = (new_task (env_last_segment env) (env_fresh_id env) (env_clock env) u fname dest)
                 \<lparr>scheduled_time := sched, priority := prio\<rparr>;
          t1 = (if env_enable_video_detection env
                then (case env_detect_video env u of
                        None \<Rightarrow> t0
                      | Some vi \<Rightarrow>
                          (let t = t0\<lparr>is_video := True, video_quality := quality vi\<rparr>
                           in case direct_url vi of
                                None \<Rightarrow> t
                              | Some d \<Rightarrow> if d \<noteq> [] then t\<lparr>url := d\<rparr> else t))
                else t0)
      in case destination t1 of
           None \<Rightarrow> t1\<lparr>destination := Some (env_download_directory env)\<rparr>
         | Some d \<Rightarrow> if d = [] then t1\<lparr>destination := Some (env_download_directory env)\<rparr> else t1)"

text \<open>
  Then the end of the function: a task with a time in the future goes to the scheduler
  and is marked Queued, any other task goes on the queue. The result is \<open>None\<close> when
  the call does not return.
\<close>

definition schedule_or_queue ::
  "environment \<Rightarrow> real option \<Rightarrow> task_ref \<Rightarrow> DownloadManager
   \<Rightarrow> (py_error \<times> DownloadManager + DownloadManager) option" where
  "schedule_or_queue env sched r m =
     (case sched of
        None \<Rightarrow> Some (queue_download r m)
      | Some st \<Rightarrow>
          if st \<noteq> 0 \<and> st > env_clock env
          then (case schedule_download False (env_clock env) (objects m) r (scheduler m) of
                  None \<Rightarrow> None
                | Some (scheduled, s') \<Rightarrow>
                    Some (Inr (set_status r QUEUED (m\<lparr>scheduler := s'\<rparr>))))
          else Some (queue_download r m))"

text \<open>
  The whole function. Its body is inside \<open>try\<close>, and \<open>except Exception\<close> prints the
  message and returns \<open>None\<close>: the result \<open>Inl\<close>, which keeps what was raised. Both
  rejections raise \<open>ValueError\<close>. When the first \<open>save_download\<close> raises, the task
  that was built is in none of the manager's tables and is dropped with the call.
\<close>

definition add_download ::
  "environment \<Rightarrow> string \<Rightarrow> string option \<Rightarrow> string option \<Rightarrow> real option \<Rightarrow> int
   \<Rightarrow> DownloadManager \<Rightarrow> ((add_error + task_ref) \<times> DownloadManager) option" where
  "add_download env u fname dest sched prio m =
     (if \<not> env_url_valid env u then Some (Inl InvalidURL, m)
      else if is_duplicate_url u m then Some (Inl DuplicateURL, m)
      else
        let t = prepared_task env u fname dest sched prio;
            r = next_ref m;
            m1 = m\<lparr>objects := (objects m)(r := t), next_ref := Suc r\<rparr>
        in case db_save r m1 of
             Inl e \<Rightarrow> Some (Inl (Raised e), m)
           | Inr m2 \<Rightarrow>
               (let m3 = m2\<lparr>all_downloads := AList.update (task_id t) r (all_downloads m2)\<rparr>
                in case schedule_or_queue env sched r m3 of
                     None \<Rightarrow> None
                   | Some (Inl (e, m')) \<Rightarrow> Some (Inl (Raised e), m')
                   | Some (Inr m4) \<Rightarrow> Some (Inr r, notify_status_callbacks r m4)))"

text \<open>
  \<open>DownloadManager.cancel_download\<close>. Nothing in it catches an exception:
  \<open>Inl\<close> is the exception that leaves it, with the manager as it is then. The engine's
  \<open>cancel_download\<close> has its body inside \<open>try\<close>, so an exception of the status
  callback ends there (the engine prints it and returns \<open>False\<close>, which the manager
  does not look at).
\<close>

definition cancel_download ::
  "string \<Rightarrow> DownloadManager \<Rightarrow> py_error \<times> DownloadManager + bool \<times> DownloadManager" where
  "cancel_download download_id m =
     (case get_download download_id m of
        None \<Rightarrow> Inr (False, m)
      | Some r \<Rightarrow>
          (let m1 = (if status (objects m r) = DOWNLOADING
                     then (case engine_cancel_download (objects m r) (engine m) of
                             (ok, t', e') \<Rightarrow>
                               (case on_status_change r
                                       (m\<lparr>objects := (objects m)(r := t'), engine := e'\<rparr>) of
                                  Inl (e, m') \<Rightarrow> m'
                                | Inr m' \<Rightarrow> m'))
                     else m);
               m2 = m1\<lparr>objects := (objects m1)(r := cancel (objects m1 r))\<rparr>
           in case db_save r m2 of
                Inl e \<Rightarrow> Inl (e, m2)
              | Inr m3 \<Rightarrow>
                  Inr (True, notify_status_callbacks r
                               (m3\<lparr>active := AList.delete download_id (active m3)\<rparr>))))"

text \<open>
  \<open>_load_downloads\<close>. First its loop, on the list \<open>load_all_downloads()\<close>
  returned: each loaded task is a new object.
\<close>

definition is_scheduled :: "real \<Rightarrow> DownloadTask \<Rightarrow> bool" where
  "is_scheduled now t = (case scheduled_time t of None \<Rightarrow> False | Some st \<Rightarrow> st > now)"

fun load_downloads_loop ::
  "real \<Rightarrow> DownloadTask list \<Rightarrow> DownloadManager
   \<Rightarrow> (py_error \<times> DownloadManager + DownloadManager) option" where
  "load_downloads_loop now [] m = Some (Inr m)"
| "load_downloads_loop now (t # ts) m =
     (let r = next_ref m;
          m1 = m\<lparr>objects := (objects m)(r := t), next_ref := Suc r,
                 all_downloads := AList.update (task_id t) r (all_downloads m)\<rparr>
      in case (if status (objects m1 r) = DOWNLOADING
               then (case db_save r (set_status r PAUSED m1) of
                       Inl e \<Rightarrow> Inl (e, set_status r PAUSED m1)
                     | Inr m' \<Rightarrow> Inr m')
               else Inr m1) of
           Inl raised \<Rightarrow> Some (Inl raised)
         | Inr m2 \<Rightarrow>
             if is_scheduled now (objects m2 r)
             then (case schedule_download False now (objects m2) r (scheduler m2) of
                     None \<Rightarrow> None
                   | Some (scheduled, s') \<Rightarrow> load_downloads_loop now ts (m2\<lparr>scheduler := s'\<rparr>))
             else load_downloads_loop now ts m2)"

text \<open>
  Then the whole function: the tasks are loaded from the database and the loop runs on
  them. The URL parsing, the generated id and the clock are those of the constructor
  inside \<open>from_dict\<close>. The manager's own lock, held around the loop, the engine's
  and the file manager's are never taken twice on the paths modelled here. Nothing in
  \<open>_load_downloads\<close> catches an exception, so one raised by \<open>save_download\<close> leaves
  it (\<open>Inl\<close>, with the manager as it is then).
\<close>

definition load_downloads ::
  "(string \<Rightarrow> string option) \<Rightarrow> string \<Rightarrow> real \<Rightarrow> DownloadManager
   \<Rightarrow> (py_error \<times> DownloadManager + DownloadManager) option" where
  "load_downloads url_segment new_id now m =
     (case load_all_downloads (db_state m) url_segment new_id now (db m) of
        None \<Rightarrow> None
      | Some downloads \<Rightarrow> load_downloads_loop now downloads m)"

text \<open>The manager as \<open>__init__\<close> has it before \<open>_load_downloads\<close> runs.\<close>

definition new_manager :: "task_store \<Rightarrow> database \<Rightarrow> DownloadManager" where
  "new_manager mem rows =
     \<lparr>objects = mem, next_ref = 0, all_downloads = [], active = [], download_queue = [],
      scheduler = new_scheduler, engine = idle_engine, db = rows, db_state = Working,
      callback_log = [], notifier_log = []\<rparr>"

subsection \<open>Concrete managers\<close>

text \<open>
  A task that has completed, a store that holds one and the same task at every
  reference, and the manager that knows that one task under reference 0, with its row in
  the database.
\<close>

definition completed_task :: DownloadTask where
  "completed_task = complete 2000 (probed_task 100 True)"

definition constant_store :: "DownloadTask \<Rightarrow> task_store" where
  "constant_store t r = t"

definition manager_with :: "DownloadTask \<Rightarrow> DownloadManager" where
  "manager_with t =
     (new_manager (constant_store t) [(task_id t, t)])
       \<lparr>next_ref := 1, all_downloads := [(task_id t, 0)]\<rparr>"

text \<open>
  A task whose server announced \<open>Content-Length: 9223372036854775808\<close>, that is
  \<open>2 ^ 63\<close> bytes. The task was added and queued, which saved its row;
  \<open>start_download\<close> then copied the size into the task and, the disk being smaller,
  marked it \<open>Error\<close> and returned \<open>False\<close>, after which nothing is saved. The
  manager knows the task under reference 0.
\<close>

definition queued_task :: DownloadTask where
  "queued_task =
     (new_task big_bin_segment ''0123456789ab'' 1000 ''http://host/big.bin'' None
        (Some ''/home/u/Downloads''))\<lparr>status := QUEUED\<rparr>"

definition oversized_info :: file_info where
  "oversized_info =
     \<lparr>info_file_size = 9223372036854775808, info_supports_range = True,
      info_content_type = ''application/octet-stream'',
      info_headers = [(''Content-Length'', ''9223372036854775808'')],
      info_filename = Some ''big.bin''\<rparr>"

definition oversized_task :: DownloadTask where
  "oversized_task =
     error ''Insufficient disk space'' (update_task_with_file_info oversized_info queued_task)"

definition oversized_manager :: DownloadManager where
  "oversized_manager =
     (new_manager (constant_store oversized_task) [(''0123456789ab'', queued_task)])
       \<lparr>next_ref := 1, all_downloads := [(''0123456789ab'', 0)]\<rparr>"

text \<open>
  An environment whose URL check accepts every non-empty string and whose video detector
  finds nothing, and a paused task.
\<close>

definition example_env :: environment where
  "example_env =
     \<lparr>env_url_valid = (\<lambda>u. u \<noteq> []), env_last_segment = big_bin_segment,
      env_fresh_id = ''ffffffffffff'', env_clock = 3000, env_enable_video_detection = True,
      env_detect_video = (\<lambda>u. None), env_download_directory = ''/home/u/Downloads''\<rparr>"

definition paused_task :: DownloadTask where
  "paused_task = (probed_task 100 True)\<lparr>status := PAUSED\<rparr>"

subsection \<open>One round of startup recovery\<close>

text \<open>
  For the proofs: what one round of the loop of \<open>_load_downloads\<close> makes of a loaded
  task and of the manager, in closed form, and the scheduler entries of the tasks with a
  time in the future.
\<close>

definition recovered :: "DownloadTask \<Rightarrow> DownloadTask" where
  "recovered t = (if status t = DOWNLOADING then t\<lparr>status := PAUSED\<rparr> else t)"

definition future_entry :: "real \<Rightarrow> task_ref \<Rightarrow> DownloadTask \<Rightarrow> ScheduledItem list" where
  "future_entry now r t =
     (case scheduled_time t of
        None \<Rightarrow> []
      | Some st \<Rightarrow> if st > now then [\<lparr>item_scheduled_time = st, item_task = r\<rparr>] else [])"

fun future_entries :: "real \<Rightarrow> task_ref \<Rightarrow> DownloadTask list \<Rightarrow> ScheduledItem list" where
  "future_entries now r [] = []"
| "future_entries now r (t # ts) = future_entry now r t @ future_entries now (Suc r) ts"

definition load_one :: "real \<Rightarrow> DownloadTask \<Rightarrow> DownloadManager \<Rightarrow> DownloadManager" where
  "load_one now t m =
     m\<lparr>objects := (objects m)(next_ref m := recovered t),
       next_ref := Suc (next_ref m),
       all_downloads := AList.update (task_id t) (next_ref m) (all_downloads m),
       db := (if status t = DOWNLOADING then store_row (recovered t) (db m) else db m),
       scheduler := (case future_entry now (next_ref m) t of
                       [] \<Rightarrow> scheduler m
                     | item # _ \<Rightarrow>
                         (scheduler m)
                           \<lparr>scheduled_downloads :=
                              heappush scheduled_item_lt (scheduled_downloads (scheduler m)) item,
                            notify_count := notify_count (scheduler m) + 1\<rparr>)\<rparr>"

text \<open>
  A restart with two persisted tasks: one that was Downloading, and a Queued one scheduled
  at 5000; the clock reads 1000.
\<close>

definition interrupted_task :: DownloadTask where
  "interrupted_task = (probed_task 100 True)\<lparr>status := DOWNLOADING\<rparr>"

definition future_task :: DownloadTask where
  "future_task =
     (probed_task 100 True)
       \<lparr>task_id := ''ba9876543210'', status := QUEUED, scheduled_time := Some 5000\<rparr>"

definition stale_manager :: DownloadManager where
  "stale_manager =
     new_manager (constant_store completed_task)
       [(''0123456789ab'', interrupted_task), (''ba9876543210'', future_task)]"

definition restarted :: "(py_error \<times> DownloadManager + DownloadManager) option" where
  "restarted = load_downloads_loop 1000 [interrupted_task, future_task] stale_manager"

section \<open>The order of the queue (\<open>_process_queue\<close>)\<close>

text \<open>
  One round of the loop of \<open>_process_queue\<close>: nothing happens while
  \<open>max_concurrent\<close> downloads are active or the queue stays empty; otherwise the entry
  \<open>get\<close> returns is started, and is recorded as active when the start succeeds.
  Starting a download (\<open>_start_download_internal\<close>) talks to the server and is the
  parameter \<open>start_download_internal\<close>.
\<close>

definition process_queue_step ::
  "int \<Rightarrow> (task_ref \<Rightarrow> DownloadManager \<Rightarrow> bool \<times> DownloadManager) \<Rightarrow> DownloadManager
   \<Rightarrow> DownloadManager" where
  "process_queue_step max_concurrent start_download_internal m =
     (if int (length (active m)) \<ge> max_concurrent then m
      else case queue_get (download_queue m) of
             None \<Rightarrow> m
           | Some (queued_download, rest) \<Rightarrow>
               (case start_download_internal (qd_task queued_download)
                       (m\<lparr>download_queue := rest\<rparr>) of
                  (ok, m1) \<Rightarrow>
                    if ok
                    then m1\<lparr>active := AList.update (task_id (objects m1 (qd_task queued_download)))
                                        (qd_task queued_download) (active m1)\<rparr>
                    else m1))"

text \<open>
  The order in which the entries of a queue are dequeued when nothing is added in
  between: \<open>get\<close> is repeated, once for every entry of the queue (that this empties the
  queue is part of what is proved below). \<open>put_all\<close> is the queue after the entries
  have been put one after the other into an empty queue.
\<close>

fun dequeue_upto :: "nat \<Rightarrow> QueuedDownload list \<Rightarrow> QueuedDownload list" where
  "dequeue_upto 0 queue = []"
| "dequeue_upto (Suc n) queue =
     (case queue_get queue of
        None \<Rightarrow> []
      | Some (item, rest) \<Rightarrow> item # dequeue_upto n rest)"

definition dequeue_all :: "QueuedDownload list \<Rightarrow> QueuedDownload list" where
  "dequeue_all queue = dequeue_upto (length queue) queue"

definition put_all :: "QueuedDownload list \<Rightarrow> QueuedDownload list" where
  "put_all items = fold (\<lambda>item queue. queue_put queue item) items []"

text \<open>
  The queue while the manager runs: \<open>_queue_download\<close> puts an entry at any time, and
  the processor thread, started by \<open>__init__\<close>, calls \<open>get\<close> whenever fewer than
  \<open>max_concurrent\<close> downloads are active. \<open>run_queue\<close> applies such a sequence of
  calls to a queue and returns the entries the calls of \<open>get\<close> took, in that order,
  with the queue that is left; a \<open>get\<close> that finds the queue empty takes nothing.
  \<open>puts\<close> are the entries a sequence puts.
\<close>

datatype queue_event = Put QueuedDownload | Get

fun run_queue ::
  "queue_event list \<Rightarrow> QueuedDownload list \<Rightarrow> QueuedDownload list \<times> QueuedDownload list" where
  "run_queue [] queue = ([], queue)"
| "run_queue (Put item # events) queue = run_queue events (queue_put queue item)"
| "run_queue (Get # events) queue =
     (case queue_get queue of
        None \<Rightarrow> run_queue events queue
      | Some (item, rest) \<Rightarrow>
          (case run_queue events rest of (taken, left) \<Rightarrow> (item # taken, left)))"

fun puts :: "queue_event list \<Rightarrow> QueuedDownload list" where
  "puts [] = []"
| "puts (Put item # events) = item # puts events"
| "puts (Get # events) = puts events"

text \<open>
  The scenario of the specification: A (priority 0), B (priority 10) and C (priority 5),
  put in that order.
\<close>

definition queued_a :: QueuedDownload where "queued_a = \<lparr>qd_priority = 0, qd_task = 0\<rparr>"

definition queued_b :: QueuedDownload where "queued_b = \<lparr>qd_priority = 10, qd_task = 1\<rparr>"

definition queued_c :: QueuedDownload where "queued_c = \<lparr>qd_priority = 5, qd_task = 2\<rparr>"

chapter \<open>Properties\<close>

section \<open>The part plan covers the file\<close>

lemma create_part_files_ranges:
  "map (\<lambda>p. (part_number p, start_byte p, end_byte p))
       (fst (create_part_files temp_dir tid ps fs))
   = map (\<lambda>p. (part_number p, start_byte p, end_byte p)) ps"
proof (induction ps arbitrary: fs)
  case Nil
  show ?case by simp
next
  case (Cons p ps)
  obtain path fs1 where c: "create_temp_file temp_dir tid (part_number p) fs = (path, fs1)"
    by (cases "create_temp_file temp_dir tid (part_number p) fs")
  obtain ps' fs2 where r: "create_part_files temp_dir tid ps fs1 = (ps', fs2)"
    by (cases "create_part_files temp_dir tid ps fs1")
  from Cons.IH [of fs1] r
  have "map (\<lambda>p. (part_number p, start_byte p, end_byte p)) ps'
        = map (\<lambda>p. (part_number p, start_byte p, end_byte p)) ps"
    by simp
  with c r show ?case by simp
qed

lemma byte_ranges_setup_multithread:
  "byte_ranges (setup_multithread_download n fsize t) = planned_ranges n fsize"
  by (simp add: byte_ranges_def planned_ranges_def setup_multithread_download_def
      multithread_part_def new_part_def Let_def)

lemma byte_ranges_setup_download:
  "byte_ranges (fst (setup_download max_threads temp_dir now t e))
   = planned_ranges (choose_num_threads max_threads t) (file_size t)"
proof -
  let ?t1 = "setup_multithread_download (choose_num_threads max_threads t) (file_size t) t"
  have "byte_ranges (fst (setup_download max_threads temp_dir now t e))
        = map (\<lambda>p. (part_number p, start_byte p, end_byte p))
            (fst (create_part_files temp_dir (task_id ?t1) (parts ?t1) (files e)))"
    by (simp add: setup_download_def Let_def byte_ranges_def start_def split: prod.splits)
  also have "\<dots> = byte_ranges ?t1"
    by (simp add: create_part_files_ranges byte_ranges_def)
  finally show ?thesis
    by (simp add: byte_ranges_setup_multithread)
qed




lemma probed_task_fields [simp]:
  "file_size (probed_task fsize ranges) = fsize"
  "supports_range_requests (probed_task fsize ranges) = ranges"
  by (simp_all add: probed_task_def)




text \<open>A file of one byte with 8 threads allowed is planned as the single part \<open>[0, 0]\<close>.\<close>

lemma one_byte_file_single_part:
  "map (\<lambda>p. (part_number p, start_byte p, end_byte p))
     (parts (fst (setup_download 8 ''/tmp/DownloadManager'' 1000 (probed_task 1 True) idle_engine)))
   = [(0, 0, 0)]"
  using byte_ranges_setup_download
    [of 8 "''/tmp/DownloadManager''" 1000 "probed_task 1 True" idle_engine]
  by (simp add: byte_ranges_def planned_ranges_def choose_num_threads_def MiB_def)

section \<open>The request of a resumed part\<close>

text \<open>
  With more than one part, a worker on a task with range support asks for the bytes from
  \<open>start_byte + downloaded_bytes\<close> on.
\<close>

lemma part_request_multi_part:
  assumes "supports_range_requests t" and "length (parts t) > 1"
    and "start_byte p + part_downloaded_bytes p \<le> end_byte p"
  shows "part_request t p
         = Some (DownloadRange (url t) (start_byte p + part_downloaded_bytes p) (end_byte p))"
  using assms by (simp add: part_request_def Let_def)

text \<open>With exactly one part the request never carries a range, whatever was downloaded.\<close>

lemma part_request_single_part:
  assumes "length (parts t) = 1"
    and "start_byte p + part_downloaded_bytes p \<le> end_byte p"
  shows "part_request t p = Some (DownloadFull (url t))"
  using assms by (simp add: part_request_def Let_def)

text \<open>
  C2 (the code at the failing input). Resuming the single part of a task with range
  support, with 10 of its 100 bytes already downloaded, the worker issues the full
  request, with no range, instead of the range request from byte 10; the 100 bytes of
  the answer are appended to the 10 on disk and the part counts 110 bytes for a range of
  100.
\<close>

theorem resume_single_part_full_request:
  "supports_range_requests resumed_task
   \<and> map part_downloaded_bytes (parts resumed_task) = [10]
   \<and> part_request resumed_task resumed_part = Some (DownloadFull (url resumed_task))
   \<and> part_request resumed_task resumed_part
       \<noteq> Some (DownloadRange (url resumed_task) 10 99)
   \<and> part_downloaded_bytes (fst (download_part byte_server resumed_task resumed_part
         resumed_files)) = 110
   \<and> map_option length (snd (download_part byte_server resumed_task resumed_part resumed_files)
         ''/tmp/DownloadManager/0123456789ab_part_0.tmp'') = Some 110"
  by (simp add: resumed_task_def resumed_part_def part_request_def download_part_def
      byte_server_def resumed_files_def new_part_def append_to_temp_file_def Let_def)

section \<open>Serialisation round trip\<close>

lemma status_of_value_status_value: "status_of_value (status_value s) = Inr s"
  by (cases s) (simp_all add: status_value_def status_of_value_def)

lemma bind_err_Inr [simp]: "bind_err (Inr x) f = f x"
  by (simp add: bind_err_def)

lemma to_dict_lookups:
  "item_str (to_dict t) ''url'' = Inr (url t)"
  "item_str (to_dict t) ''id'' = Inr (task_id t)"
  "get_opt_str (to_dict t) ''filename'' = Inr (Some (filename t))"
  "get_opt_str (to_dict t) ''destination'' = Inr (destination t)"
  "get_int (to_dict t) ''file_size'' d1 = Inr (file_size t)"
  "get_int (to_dict t) ''downloaded_bytes'' d2 = Inr (downloaded_bytes t)"
  "get_str (to_dict t) ''status'' d3 = Inr (status_value (status t))"
  "get_float (to_dict t) ''created_at'' d4 = Inr (created_at t)"
  "get_opt_float (to_dict t) ''started_at'' = Inr (started_at t)"
  "get_opt_float (to_dict t) ''completed_at'' = Inr (completed_at t)"
  "get_opt_str (to_dict t) ''error_message'' = Inr (error_message t)"
  "get_int (to_dict t) ''retry_count'' d5 = Inr (retry_count t)"
  "get_int (to_dict t) ''max_retries'' d6 = Inr (max_retries t)"
  "get_bool (to_dict t) ''supports_range_requests'' d7 = Inr (supports_range_requests t)"
  "get_int (to_dict t) ''num_threads'' d8 = Inr (num_threads t)"
  "get_float (to_dict t) ''download_speed'' d9 = Inr (download_speed t)"
  "get_float (to_dict t) ''eta'' d10 = Inr (eta t)"
  "get_float (to_dict t) ''progress_percentage'' d11 = Inr (progress_percentage t)"
  "get_opt_str (to_dict t) ''content_type'' = Inr (content_type t)"
  "get_dict (to_dict t) ''headers'' = Inr (headers t)"
  "get_opt_str (to_dict t) ''checksum'' = Inr (checksum t)"
  "get_bool (to_dict t) ''is_video'' d12 = Inr (is_video t)"
  "get_opt_str (to_dict t) ''video_quality'' = Inr (video_quality t)"
  "get_opt_float (to_dict t) ''scheduled_time'' = Inr (scheduled_time t)"
  "get_int (to_dict t) ''priority'' d13 = Inr (priority t)"
  by (simp_all add: to_dict_def item_str_def get_opt_str_def get_int_def get_str_def
      get_float_def get_opt_float_def get_bool_def get_dict_def opt_str_def opt_float_def
      split: option.splits)

subsection \<open>No task has an empty file name\<close>

text \<open>
  \<open>filename\<close> is assigned in two places only, the constructor and
  \<open>_update_task_with_file_info\<close>, and both store a non-empty string: the
  constructor falls back to the name it derives from the URL, which is the last segment
  of the path when that has a dot and \<open>download_<id>\<close> otherwise. So the tasks
  \<open>add_download\<close> prepares and the tasks \<open>from_dict\<close> rebuilds have one, and the
  probe keeps it.
\<close>

lemma extract_filename_from_url_nonempty:
  "extract_filename_from_url last_segment self_id u \<noteq> []"
  by (simp add: extract_filename_from_url_def split: option.splits)

lemma new_task_filename_nonempty:
  "filename (new_task last_segment fresh_id now u fname dest) \<noteq> []"
  by (simp add: new_task_def extract_filename_from_url_nonempty split: option.splits)

lemma update_task_with_file_info_filename_nonempty:
  "filename t \<noteq> [] \<Longrightarrow> filename (update_task_with_file_info info t) \<noteq> []"
  by (simp add: update_task_with_file_info_def Let_def split: option.splits)

lemma prepared_task_filename_nonempty:
  "filename (prepared_task env u fname dest sched prio) \<noteq> []"
  by (simp add: prepared_task_def Let_def new_task_filename_nonempty split: option.splits)

lemma from_dict_filename_nonempty:
  assumes "from_dict last_segment fresh_id now d = Inr t"
  shows "filename t \<noteq> []"
  using assms
  by (auto simp: from_dict_def bind_err_def Let_def new_task_filename_nonempty
      split: sum.splits)

subsection \<open>The round trip\<close>

text \<open>
  C3. For every task, which has a non-empty \<open>filename\<close> as shown above,
  \<open>from_dict(to_dict(t))\<close> succeeds and returns a task that differs from \<open>t\<close>
  at most in \<open>parts\<close>, which is empty: all twenty-five serialised fields are those of
  \<open>t\<close>, whatever id and clock reading the constructor inside \<open>from_dict\<close> sees.
\<close>

theorem from_dict_to_dict:
  assumes "filename t \<noteq> []"
  shows "from_dict last_segment fresh_id now (to_dict t) = Inr (t\<lparr>parts := []\<rparr>)"
  using assms
  by (cases t) (simp add: from_dict_def to_dict_lookups status_of_value_status_value new_task_def)

theorem from_dict_to_dict_witness:
  "filename (probed_task 100 True) \<noteq> []
   \<and> from_dict big_bin_segment ''ffffffffffff'' 2000 (to_dict (probed_task 100 True))
       = Inr ((probed_task 100 True)\<lparr>parts := []\<rparr>)"
proof -
  have f: "filename (probed_task 100 True) \<noteq> []"
    by (simp add: probed_task_def new_task_def extract_filename_from_url_def
        big_bin_segment_def)
  from f from_dict_to_dict [OF f] show ?thesis
    by simp
qed

section \<open>Merging onto an existing file\<close>

text \<open>Whatever happens, \<open>_complete_download\<close> leaves the task's \<open>filename\<close> as it was.\<close>

lemma complete_download_filename:
  "filename (fst (complete_download path_join category_directory now t e)) = filename t"
  by (simp add: complete_download_def Let_def error_def complete_def
      split: sum.splits option.splits)

text \<open>
  C5 (the code at the failing input). With \<open>/home/u/Downloads/big.bin\<close> already
  there, completing the task merges the two parts into that very path: the older file
  is overwritten, no \<open>big (1).bin\<close> is created, and the task keeps the name
  \<open>big.bin\<close> and becomes Completed.
\<close>

theorem merge_overwrites_existing_file:
  "files finished_engine ''/home/u/Downloads/big.bin'' = Some ''an older file''
   \<and> files finished_engine ''/home/u/Downloads/big (1).bin'' = None
   \<and> files (snd (complete_download posix_join downloads_directory 2000 finished_task
         finished_engine)) ''/home/u/Downloads/big.bin''
       = Some (replicate 60 (CHR ''a'') @ replicate 40 (CHR ''b''))
   \<and> files (snd (complete_download posix_join downloads_directory 2000 finished_task
         finished_engine)) ''/home/u/Downloads/big (1).bin'' = None
   \<and> filename (fst (complete_download posix_join downloads_directory 2000 finished_task
         finished_engine)) = ''big.bin''
   \<and> status (fst (complete_download posix_join downloads_directory 2000 finished_task
         finished_engine)) = COMPLETED"
  by (simp add: complete_download_def finished_task_def finished_engine_def idle_engine_def
      probed_task_def new_task_def new_part_def existing_temp_files_def merge_temp_files_def
      append_to_temp_file_def verify_file_integrity_def posix_join_def complete_def
      notify_status_change_def big_bin_segment_def extract_filename_from_url_def Let_def)

lemma resolve_filename_conflict_example:
  "resolve_filename_conflict split_big_bin (files finished_engine) ''/home/u/Downloads/big.bin''
   = Some ''/home/u/Downloads/big (1).bin''"
  by (subst resolve_filename_conflict_def, subst first_free_name.simps)
     (simp add: finished_engine_def split_big_bin_def numbered_name_def)

section \<open>Binary heaps\<close>

subsection \<open>The heap operations rearrange, and lose or add nothing\<close>

lemma mset_update_swap:
  "i < length h \<Longrightarrow> j < length h \<Longrightarrow> i \<noteq> j \<Longrightarrow>
   mset (h[i := h ! j, j := x]) = mset (h[i := x])"
  using mset_swap [of j "h[i := x]" i] by simp

lemma mset_siftdown_loop:
  "pos < length heap \<Longrightarrow>
   mset (siftdown_loop lt heap startpos pos newitem) = mset (heap[pos := newitem])"
proof (induction lt heap startpos pos newitem rule: siftdown_loop.induct)
  case (1 lt heap startpos pos newitem)
  show ?case
  proof (cases "pos > startpos \<and> lt newitem (heap ! ((pos - 1) div 2))")
    case False
    then show ?thesis
      by (subst siftdown_loop.simps) (auto simp: Let_def)
  next
    case True
    let ?pp = "(pos - 1) div 2"
    let ?g = "heap[pos := newitem]"
    from True "1.prems" have pp: "?pp < pos" "?pp < length heap"
      by auto
    have "siftdown_loop lt heap startpos pos newitem
          = siftdown_loop lt (heap[pos := heap ! ?pp]) startpos ?pp newitem"
      using True by (subst siftdown_loop.simps) (simp add: Let_def)
    also have "mset \<dots> = mset (heap[pos := heap ! ?pp, ?pp := newitem])"
      using True pp by (intro "1.IH") auto
    also have "\<dots> = mset ?g"
      using pp "1.prems" by (intro mset_update_swap) auto
    finally show ?thesis .
  qed
qed

lemma length_siftdown_loop [simp]:
  "length (siftdown_loop lt heap startpos pos newitem) = length heap"
proof (induction lt heap startpos pos newitem rule: siftdown_loop.induct)
  case (1 lt heap startpos pos newitem)
  then show ?case
    by (subst siftdown_loop.simps) (simp add: Let_def)
qed

lemma mset_siftdown: "pos < length heap \<Longrightarrow> mset (siftdown lt heap startpos pos) = mset heap"
  by (simp add: siftdown_def mset_siftdown_loop)

lemma mset_heappush: "mset (heappush lt heap item) = mset heap + {#item#}"
  by (simp add: heappush_def mset_siftdown)

lemma siftup_loop_props:
  "pos < length heap \<Longrightarrow> endpos \<le> length heap \<Longrightarrow>
   siftup_loop lt heap endpos pos = (heap1, pos1) \<Longrightarrow>
   pos1 < length heap \<and> length heap1 = length heap
   \<and> mset (heap1[pos1 := x]) = mset (heap[pos := x])"
proof (induction lt heap endpos pos arbitrary: heap1 pos1 rule: siftup_loop.induct)
  case (1 lt heap endpos pos)
  show ?case
  proof (cases "2 * pos + 1 < endpos")
    case False
    with "1.prems" show ?thesis
      by (subst (asm) siftup_loop.simps) (simp add: Let_def)
  next
    case True
    define c where "c = (if 2 * pos + 2 < endpos \<and> \<not> lt (heap ! (2 * pos + 1)) (heap ! (2 * pos + 2))
                          then 2 * pos + 2 else 2 * pos + 1)"
    have c: "c < endpos" "c < length heap" "pos < c"
      using True "1.prems"(2) by (auto simp: c_def)
    have step: "siftup_loop lt heap endpos pos = siftup_loop lt (heap[pos := heap ! c]) endpos c"
      using True by (subst siftup_loop.simps) (simp add: Let_def c_def)
    have "pos1 < length (heap[pos := heap ! c]) \<and> length heap1 = length (heap[pos := heap ! c])
          \<and> mset (heap1[pos1 := x]) = mset (heap[pos := heap ! c, c := x])"
      using True c "1.prems" step
      by (intro "1.IH" [where x = "2 * pos + 1" and xa = "2 * pos + 1 + 1" and xb = c])
         (auto simp: c_def)
    moreover have "mset (heap[pos := heap ! c, c := x]) = mset (heap[pos := x])"
      using c "1.prems" by (intro mset_update_swap) auto
    ultimately show ?thesis by simp
  qed
qed

lemma mset_siftup: "pos < length heap \<Longrightarrow> mset (siftup lt heap pos) = mset heap"
proof -
  assume p: "pos < length heap"
  obtain heap1 pos1 where l: "siftup_loop lt heap (length heap) pos = (heap1, pos1)"
    by (cases "siftup_loop lt heap (length heap) pos")
  from siftup_loop_props [OF p _ l, of "heap ! pos"]
  have "pos1 < length heap1" "mset (heap1[pos1 := heap ! pos]) = mset heap"
    by simp_all
  then show ?thesis
    by (simp add: siftup_def l mset_siftdown)
qed

lemma length_siftup: "pos < length heap \<Longrightarrow> length (siftup lt heap pos) = length heap"
  by (metis mset_siftup size_mset)

lemma mset_heapify_aux:
  "\<forall>i \<in> set is. i < length x \<Longrightarrow> mset (fold (\<lambda>i h. siftup lt h i) is x) = mset x"
  by (induction "is" arbitrary: x) (simp_all add: mset_siftup length_siftup)

lemma mset_heapify: "mset (heapify lt x) = mset x"
  unfolding heapify_def by (rule mset_heapify_aux) auto

subsection \<open>Pushing and popping keep the heap order\<close>

lemma parent_less: "0 < i \<Longrightarrow> (i - 1) div 2 < (i::nat)"
  by presburger

lemma ordered_but_swap_up:
  fixes k :: "'a \<Rightarrow> 'k::linorder"
  assumes pos: "0 < pos" "pos < length heap"
    and ob: "ordered_but k (heap[pos := x]) pos"
    and less: "k x < k (heap ! ((pos - 1) div 2))"
  shows "ordered_but k (heap[pos := heap ! ((pos - 1) div 2), (pos - 1) div 2 := x])
           ((pos - 1) div 2)"
proof -
  let ?pp = "(pos - 1) div 2"
  let ?p = "heap ! ?pp"
  let ?g' = "heap[pos := ?p, ?pp := x]"
  from pos have pp: "?pp < pos" "?pp < length heap" by auto
  from ob have A: "k (heap ! ((i - 1) div 2)) \<le> k (heap ! i)"
    if "0 < i" "i < length heap" "i \<noteq> pos" "(i - 1) div 2 \<noteq> pos" for i
    using that unfolding ordered_but_def
    by (metis length_list_update nth_list_update_neq)
  from ob pos have B: "k ?p \<le> k (heap ! c)"
    if "0 < c" "c < length heap" "(c - 1) div 2 = pos" for c
  proof -
    have "c \<noteq> pos" using that by auto
    with ob pos that pp show ?thesis
      unfolding ordered_but_def
      by (metis length_list_update nth_list_update_neq less_irrefl)
  qed
  have g'_pp: "?g' ! ?pp = x" using pp by simp
  have g'_pos: "?g' ! pos = ?p" using pp pos by simp
  have g'_other: "?g' ! j = heap ! j" if "j \<noteq> pos" "j \<noteq> ?pp" for j
    using that by simp
  show ?thesis
    unfolding ordered_but_def
  proof (intro conjI allI impI)
    fix i assume "0 < i \<and> i < length ?g' \<and> i \<noteq> ?pp"
    then have i: "0 < i" "i < length heap" "i \<noteq> ?pp" by simp_all
    have ip: "(i - 1) div 2 < i" using i(1) by (rule parent_less)
    show "k (?g' ! ((i - 1) div 2)) \<le> k (?g' ! i)"
    proof (cases "i = pos")
      case True
      with less g'_pp g'_pos show ?thesis by simp
    next
      case ne: False
      show ?thesis
      proof (cases "(i - 1) div 2 = pos")
        case True
        with B [of i] i ne g'_pos g'_other [of i] show ?thesis by simp
      next
        case npos: False
        show ?thesis
        proof (cases "(i - 1) div 2 = ?pp")
          case True
          with A [of i] i ne npos less g'_pp g'_other [of i] show ?thesis by simp
        next
          case False
          with A [of i] i ne npos g'_other [of i] g'_other [of "(i - 1) div 2"]
          show ?thesis by simp
        qed
      qed
    qed
  next
    fix c assume "0 < ?pp" and "0 < c \<and> c < length ?g' \<and> (c - 1) div 2 = ?pp"
    then have c: "0 < ?pp" "0 < c" "c < length heap" "(c - 1) div 2 = ?pp" by simp_all
    have gp: "(?pp - 1) div 2 < ?pp" using c(1) by (rule parent_less)
    from A [of ?pp] c pp gp have top: "k (heap ! ((?pp - 1) div 2)) \<le> k ?p"
      by simp
    have g'_gp: "?g' ! ((?pp - 1) div 2) = heap ! ((?pp - 1) div 2)"
      using gp pp by simp
    have cpp: "c \<noteq> ?pp" using parent_less [OF c(2)] c(4) by simp
    show "k (?g' ! ((?pp - 1) div 2)) \<le> k (?g' ! c)"
    proof (cases "c = pos")
      case True
      with top g'_gp g'_pos show ?thesis by simp
    next
      case False
      have "(c - 1) div 2 \<noteq> pos" using c pp by simp
      with A [of c] c False have "k ?p \<le> k (heap ! c)" by simp
      with top g'_gp g'_other [of c] False cpp show ?thesis by simp
    qed
  qed
qed

lemma siftdown_loop_ordered:
  fixes k :: "'a \<Rightarrow> 'k::linorder"
  shows "(\<And>a b. lt a b = (k a < k b)) \<Longrightarrow> startpos = 0 \<Longrightarrow> pos < length h \<Longrightarrow>
         ordered_but k (h[pos := x]) pos \<Longrightarrow>
         heap_ordered k (siftdown_loop lt h startpos pos x)"
proof (induction lt h startpos pos x rule: siftdown_loop.induct)
  case (1 lt heap startpos pos newitem)
  let ?pp = "(pos - 1) div 2"
  let ?g = "heap[pos := newitem]"
  show ?case
  proof (cases "pos = 0")
    case True
    with "1.prems" show ?thesis
      by (subst siftdown_loop.simps) (auto simp: ordered_but_def heap_ordered_def)
  next
    case False
    then have pp: "?pp < pos" by auto
    show ?thesis
    proof (cases "lt newitem (heap ! ?pp)")
      case nlt: False
      have "heap_ordered k ?g"
        unfolding heap_ordered_def
      proof (intro allI impI)
        fix i assume i: "0 < i \<and> i < length ?g"
        show "k (?g ! ((i - 1) div 2)) \<le> k (?g ! i)"
        proof (cases "i = pos")
          case True
          with nlt pp "1.prems" show ?thesis
            by simp
        next
          case False
          with i "1.prems"(4) show ?thesis
            by (simp add: ordered_but_def)
        qed
      qed
      with False nlt "1.prems" show ?thesis
        by (subst siftdown_loop.simps) (simp add: Let_def)
    next
      case True
      with "1.prems"(1) have less: "k newitem < k (heap ! ?pp)" by simp
      from False "1.prems" have pos: "0 < pos" "pos < length heap" by simp_all
      have ob: "ordered_but k (heap[pos := heap ! ?pp, ?pp := newitem]) ?pp"
        using pos "1.prems"(4) less by (rule ordered_but_swap_up)
      have "heap_ordered k (siftdown_loop lt (heap[pos := heap ! ?pp]) startpos ?pp newitem)"
        using pos pp True "1.prems"(1,2) ob
        by (intro "1.IH" [of ?pp "heap ! ?pp"]) auto
      with pos True "1.prems"(2) show ?thesis
        by (subst siftdown_loop.simps) (simp add: Let_def)
    qed
  qed
qed

lemma heappush_ordered:
  fixes k :: "'a \<Rightarrow> 'k::linorder"
  assumes lt: "\<And>a b. lt a b = (k a < k b)" and h: "heap_ordered k h"
  shows "heap_ordered k (heappush lt h x)"
proof -
  have "ordered_but k ((h @ [x])[length h := x]) (length h)"
    unfolding ordered_but_def
  proof (intro conjI allI impI)
    fix i assume "0 < i \<and> i < length ((h @ [x])[length h := x]) \<and> i \<noteq> length h"
    then have i: "0 < i" "i < length h" by simp_all
    with parent_less [OF i(1)] have "(i - 1) div 2 < length h" by simp
    with i h show "k ((h @ [x])[length h := x] ! ((i - 1) div 2))
                   \<le> k ((h @ [x])[length h := x] ! i)"
      by (simp add: nth_append heap_ordered_def)
  next
    fix c assume "0 < length h"
      and "0 < c \<and> c < length ((h @ [x])[length h := x]) \<and> (c - 1) div 2 = length h"
    then have "0 < c" "c \<le> length h" "(c - 1) div 2 = length h" by simp_all
    with parent_less [of c] have False by simp
    then show "k ((h @ [x])[length h := x] ! ((length h - 1) div 2))
               \<le> k ((h @ [x])[length h := x] ! c)" ..
  qed
  with lt show ?thesis
    by (simp add: heappush_def siftdown_def siftdown_loop_ordered)
qed

lemma child_cases: "0 < c \<Longrightarrow> (c - 1) div 2 = pos \<Longrightarrow> c = 2 * pos + 1 \<or> c = 2 * pos + 2"
  for c pos :: nat
  by presburger

lemma ordered_around_move_down:
  fixes k :: "'a \<Rightarrow> 'k::linorder"
  assumes c: "c < length heap" "c = 2 * pos + 1 \<or> c = 2 * pos + 2"
    and least: "\<And>d. d < length heap \<Longrightarrow> d = 2 * pos + 1 \<or> d = 2 * pos + 2
                 \<Longrightarrow> k (heap ! c) \<le> k (heap ! d)"
    and oa: "ordered_around k heap pos"
  shows "ordered_around k (heap[pos := heap ! c]) c"
proof -
  let ?g' = "heap[pos := heap ! c]"
  from c have pc: "(c - 1) div 2 = pos" "pos < c" "0 < c" by auto
  from c pc have pos: "pos < length heap" by simp
  have g'_pos: "?g' ! pos = heap ! c" using pos by simp
  have g'_other: "?g' ! j = heap ! j" if "j \<noteq> pos" for j using that by simp
  from oa have A: "k (heap ! ((i - 1) div 2)) \<le> k (heap ! i)"
    if "0 < i" "i < length heap" "i \<noteq> pos" "(i - 1) div 2 \<noteq> pos" for i
    using that by (simp add: ordered_around_def)
  from oa have B: "k (heap ! ((pos - 1) div 2)) \<le> k (heap ! d)"
    if "0 < pos" "0 < d" "d < length heap" "(d - 1) div 2 = pos" for d
    using that by (simp add: ordered_around_def)
  show ?thesis
    unfolding ordered_around_def
  proof (intro conjI allI impI)
    fix i assume "0 < i \<and> i < length ?g' \<and> i \<noteq> c \<and> (i - 1) div 2 \<noteq> c"
    then have i: "0 < i" "i < length heap" "i \<noteq> c" "(i - 1) div 2 \<noteq> c" by simp_all
    show "k (?g' ! ((i - 1) div 2)) \<le> k (?g' ! i)"
    proof (cases "i = pos")
      case True
      with i have "0 < pos" by simp
      from B [OF this pc(3) c(1) pc(1)] parent_less [OF \<open>0 < pos\<close>] True g'_pos
      show ?thesis by simp
    next
      case ne: False
      show ?thesis
      proof (cases "(i - 1) div 2 = pos")
        case True
        with child_cases [OF i(1) True] least [of i] i ne g'_pos g'_other [of i]
        show ?thesis by simp
      next
        case False
        with A [of i] i ne g'_other [of i] g'_other [of "(i - 1) div 2"]
        show ?thesis by simp
      qed
    qed
  next
    fix d assume "0 < c" and "0 < d \<and> d < length ?g' \<and> (d - 1) div 2 = c"
    then have d: "0 < d" "d < length heap" "(d - 1) div 2 = c" by simp_all
    with parent_less [OF d(1)] pc have dp: "d \<noteq> pos" "(d - 1) div 2 \<noteq> pos" by simp_all
    from A [OF d(1,2) dp] d(3) have "k (heap ! c) \<le> k (heap ! d)" by simp
    with pc g'_pos g'_other [OF dp(1)] show "k (?g' ! ((c - 1) div 2)) \<le> k (?g' ! d)"
      by simp
  qed
qed

lemma siftup_loop_ordered:
  fixes k :: "'a \<Rightarrow> 'k::linorder"
  shows "(\<And>a b. lt a b = (k a < k b)) \<Longrightarrow> endpos = length heap \<Longrightarrow> pos < length heap \<Longrightarrow>
         ordered_around k heap pos \<Longrightarrow> siftup_loop lt heap endpos pos = (heap1, pos1) \<Longrightarrow>
         ordered_around k heap1 pos1 \<and> pos1 < length heap1 \<and> length heap1 = length heap
         \<and> \<not> 2 * pos1 + 1 < length heap1"
proof (induction lt heap endpos pos arbitrary: heap1 pos1 rule: siftup_loop.induct)
  case (1 lt heap endpos pos)
  show ?case
  proof (cases "2 * pos + 1 < endpos")
    case False
    then have "siftup_loop lt heap endpos pos = (heap, pos)"
      by (subst siftup_loop.simps) (simp add: Let_def)
    with False "1.prems"(2-5) show ?thesis
      by simp
  next
    case True
    define c where
      "c = (if 2 * pos + 1 + 1 < endpos \<and> \<not> lt (heap ! (2 * pos + 1)) (heap ! (2 * pos + 1 + 1))
            then 2 * pos + 1 + 1 else 2 * pos + 1)"
    have c: "c < length heap" "c = 2 * pos + 1 \<or> c = 2 * pos + 2"
      using True "1.prems"(2) by (auto simp: c_def)
    have least: "k (heap ! c) \<le> k (heap ! d)"
      if "d < length heap" "d = 2 * pos + 1 \<or> d = 2 * pos + 2" for d
      using that "1.prems"(1,2) by (auto simp: c_def)
    have step: "siftup_loop lt heap endpos pos = siftup_loop lt (heap[pos := heap ! c]) endpos c"
      using True by (subst siftup_loop.simps) (simp add: Let_def c_def)
    have oa: "ordered_around k (heap[pos := heap ! c]) c"
      using c least "1.prems"(4) by (rule ordered_around_move_down)
    have e: "endpos = length (heap[pos := heap ! c])"
      using "1.prems"(2) by simp
    have cl: "c < length (heap[pos := heap ! c])"
      using c by simp
    have s: "siftup_loop lt (heap[pos := heap ! c]) endpos c = (heap1, pos1)"
      using step "1.prems"(5) by simp
    from "1.IH" [OF refl True refl c_def "1.prems"(1) e cl oa s] show ?thesis
      by simp
  qed
qed

lemma heap_ordered_root:
  fixes k :: "'a \<Rightarrow> 'k::linorder"
  assumes "heap_ordered k h"
  shows "i < length h \<Longrightarrow> k (h ! 0) \<le> k (h ! i)"
proof (induction i rule: less_induct)
  case (less i)
  show ?case
  proof (cases "i = 0")
    case True
    then show ?thesis by simp
  next
    case False
    then have p: "(i - 1) div 2 < i" by (simp add: parent_less)
    with less.prems have "k (h ! 0) \<le> k (h ! ((i - 1) div 2))"
      by (intro less.IH) simp_all
    moreover from assms False less.prems have "k (h ! ((i - 1) div 2)) \<le> k (h ! i)"
      by (simp add: heap_ordered_def)
    ultimately show ?thesis by simp
  qed
qed

lemma mset_heappop:
  assumes "heappop lt h = Some (x, h')"
  shows "mset h = add_mset x (mset h')"
proof -
  from assms have ne: "h \<noteq> []"
    by (auto simp: heappop_def)
  then have h: "mset h = add_mset (last h) (mset (butlast h))"
    by (metis append_butlast_last_id mset.simps(2) mset_append
        union_mset_add_mset_right add.right_neutral mset.simps(1))
  show ?thesis
  proof (cases "butlast h = []")
    case True
    with assms ne h show ?thesis
      by (simp add: heappop_def)
  next
    case False
    then have len: "0 < length (butlast h)"
      by (cases h rule: rev_cases) simp_all
    from assms ne False have x: "x = butlast h ! 0"
      and h': "h' = siftup lt ((butlast h)[0 := last h]) 0"
      by (simp_all add: heappop_def Let_def)
    have "mset h' = mset ((butlast h)[0 := last h])"
      using len by (simp add: h' mset_siftup)
    also have "\<dots> = add_mset (last h) (mset (butlast h) - {#x#})"
      using len by (simp add: mset_update x)
    finally have "add_mset x (mset h') = add_mset (last h) (mset (butlast h))"
      using len x by (simp add: nth_mem)
    with h show ?thesis by simp
  qed
qed

lemma heappop_ordered:
  fixes k :: "'a \<Rightarrow> 'k::linorder"
  assumes lt: "\<And>a b. lt a b = (k a < k b)" and h: "heap_ordered k h"
    and pop: "heappop lt h = Some (x, h')"
  shows "heap_ordered k h' \<and> mset h = add_mset x (mset h') \<and> (\<forall>y \<in> set h. k x \<le> k y)"
proof -
  from pop have ne: "h \<noteq> []"
    by (auto simp: heappop_def)
  have root: "\<forall>y \<in> set h. k (h ! 0) \<le> k y"
    using heap_ordered_root [OF h] by (auto simp: in_set_conv_nth)
  show ?thesis
  proof (cases "butlast h = []")
    case True
    with ne have "h = [last h]"
      by (metis append_butlast_last_id append_Nil)
    with pop True ne show ?thesis
      by (auto simp: heappop_def heap_ordered_def)
  next
    case False
    let ?heap1 = "butlast h"
    let ?v = "last h"
    let ?g0 = "?heap1[0 := ?v]"
    from False have len: "0 < length ?heap1" by (cases h rule: rev_cases) simp_all
    from pop ne False have x: "x = ?heap1 ! 0" and h': "h' = siftup lt ?g0 0"
      by (simp_all add: heappop_def Let_def)
    from len have x0: "x = h ! 0"
      by (simp add: x nth_butlast)
    obtain h1 p1 where l: "siftup_loop lt ?g0 (length ?g0) 0 = (h1, p1)"
      by (cases "siftup_loop lt ?g0 (length ?g0) 0")
    have oa0: "ordered_around k ?g0 0"
      unfolding ordered_around_def
    proof (intro conjI allI impI)
      fix i assume "0 < i \<and> i < length ?g0 \<and> i \<noteq> 0 \<and> (i - 1) div 2 \<noteq> 0"
      then have i: "0 < i" "i < length ?heap1" "(i - 1) div 2 \<noteq> 0" by simp_all
      from parent_less [OF i(1)] i have "(i - 1) div 2 < length ?heap1" by simp
      with i h show "k (?g0 ! ((i - 1) div 2)) \<le> k (?g0 ! i)"
        by (simp add: nth_butlast heap_ordered_def)
    qed simp
    from siftup_loop_ordered [OF lt _ _ oa0 l] len
    have r: "ordered_around k h1 p1" "p1 < length h1" "length h1 = length ?heap1"
      "\<not> 2 * p1 + 1 < length h1"
      by simp_all
    have ob: "ordered_but k ((h1[p1 := ?v])[p1 := ?v]) p1"
      unfolding ordered_but_def
    proof (intro conjI allI impI)
      fix i assume "0 < i \<and> i < length ((h1[p1 := ?v])[p1 := ?v]) \<and> i \<noteq> p1"
      then have i: "0 < i" "i < length h1" "i \<noteq> p1" by simp_all
      have "(i - 1) div 2 \<noteq> p1"
      proof
        assume "(i - 1) div 2 = p1"
        from child_cases [OF i(1) this] i(2) r(4) show False by auto
      qed
      with i r(1) show "k ((h1[p1 := ?v])[p1 := ?v] ! ((i - 1) div 2))
                        \<le> k ((h1[p1 := ?v])[p1 := ?v] ! i)"
        by (simp add: ordered_around_def)
    next
      fix c assume "0 < p1"
        and "0 < c \<and> c < length ((h1[p1 := ?v])[p1 := ?v]) \<and> (c - 1) div 2 = p1"
      then have c: "0 < c" "c < length h1" "(c - 1) div 2 = p1" by simp_all
      from child_cases [OF c(1,3)] c(2) r(4) have False by auto
      then show "k ((h1[p1 := ?v])[p1 := ?v] ! ((p1 - 1) div 2))
                 \<le> k ((h1[p1 := ?v])[p1 := ?v] ! c)" ..
    qed
    have "h' = siftdown_loop lt (h1[p1 := ?v]) 0 p1 ?v"
      using len r(2) l by (simp add: h' siftup_def siftdown_def Let_def)
    with siftdown_loop_ordered [OF lt refl _ ob] r(2) have o: "heap_ordered k h'"
      by simp
    have "mset h' = mset ?g0"
      using len by (simp add: h' mset_siftup)
    also have "\<dots> = add_mset ?v (mset ?heap1 - {#x#})"
      using len by (simp add: mset_update x)
    finally have "add_mset x (mset h') = add_mset ?v (mset ?heap1)"
      using len x by (simp add: nth_mem)
    also have "\<dots> = mset h"
      using ne by (metis append_butlast_last_id mset.simps(2) mset_append
          union_mset_add_mset_right add.right_neutral mset.simps(1))
    finally have m: "mset h = add_mset x (mset h')" by simp
    from o m root x0 show ?thesis by simp
  qed
qed

section \<open>Scheduler\<close>

subsection \<open>Scheduling a task\<close>

text \<open>
  C8. \<open>schedule_download\<close>, called by a thread that does not hold the scheduler's
  lock, returns \<open>False\<close> and leaves the scheduler as it is when the task's
  \<open>scheduled_time\<close> is absent or not later than the clock reading. When it is later
  (the clock not reading a time before the epoch), the call returns \<open>True\<close>, the entry
  \<open>(scheduled_time, task)\<close> is pushed on the heap, which then holds the entries it
  held and the new one, and the worker is notified once.
\<close>

theorem schedule_download_refuses_or_pushes:
  "(scheduled_time (store r) = None \<or> (\<exists>st. scheduled_time (store r) = Some st \<and> st \<le> now)
      \<longrightarrow> schedule_download False now store r s = Some (False, s))
   \<and> (0 \<le> now \<and> scheduled_time (store r) = Some st \<and> now < st
      \<longrightarrow> schedule_download False now store r s
            = Some (True,
                s\<lparr>scheduled_downloads :=
                     heappush scheduled_item_lt (scheduled_downloads s)
                       \<lparr>item_scheduled_time = st, item_task = r\<rparr>,
                  notify_count := notify_count s + 1\<rparr>)
          \<and> mset (heappush scheduled_item_lt (scheduled_downloads s)
                    \<lparr>item_scheduled_time = st, item_task = r\<rparr>)
            = mset (scheduled_downloads s) + {#\<lparr>item_scheduled_time = st, item_task = r\<rparr>#})"
  by (auto simp: schedule_download_def mset_heappush)

lemma heappush_empty: "heappush lt [] x = [x]"
  by (simp add: heappush_def siftdown_def siftdown_loop.simps)

theorem schedule_download_refuses_or_pushes_witness:
  "schedule_download False 1000 example_store 1 new_scheduler = Some (False, new_scheduler)
   \<and> schedule_download False 1000 example_store 2 new_scheduler = Some (False, new_scheduler)
   \<and> schedule_download False 1000 example_store 0 new_scheduler
       = Some (True, new_scheduler
                \<lparr>scheduled_downloads := [\<lparr>item_scheduled_time = 5000, item_task = 0\<rparr>],
                 notify_count := 1\<rparr>)"
proof -
  have "schedule_download False 1000 example_store 1 new_scheduler = Some (False, new_scheduler)"
    using schedule_download_refuses_or_pushes [of example_store 1 1000 new_scheduler 0]
    by (simp add: example_store_def)
  moreover
  have "schedule_download False 1000 example_store 2 new_scheduler = Some (False, new_scheduler)"
    using schedule_download_refuses_or_pushes [of example_store 2 1000 new_scheduler 0]
    by (simp add: example_store_def)
  moreover
  have "schedule_download False 1000 example_store 0 new_scheduler
       = Some (True, new_scheduler
                \<lparr>scheduled_downloads := [\<lparr>item_scheduled_time = 5000, item_task = 0\<rparr>],
                 notify_count := 1\<rparr>)"
    using schedule_download_refuses_or_pushes [of example_store 0 1000 new_scheduler 5000]
    by (simp add: example_store_def new_scheduler_def heappush_empty)
  ultimately show ?thesis by simp
qed

text \<open>
  The corner the hypothesis on the clock excludes: a \<open>scheduled_time\<close> of \<open>0.0\<close> counts
  as absent, so it is refused even if the clock reads a time before the epoch.
\<close>

lemma schedule_download_zero:
  "scheduled_time (store r) = Some 0 \<Longrightarrow> schedule_download held now store r s = Some (False, s)"
  by (simp add: schedule_download_def)

lemma schedule_download_returns:
  "\<exists>b s'. schedule_download False now store r s = Some (b, s')"
  by (cases "scheduled_time (store r)") (auto simp: schedule_download_def)

subsection \<open>Rescheduling\<close>

lemma unschedule_download_held: "unschedule_download True store download_id s = None"
  by (simp add: unschedule_download_def)

text \<open>
  For an id that is in the schedule, \<open>reschedule_download\<close> never returns, whatever
  the new time: it holds the lock when it calls \<open>unschedule_download\<close>, which waits for
  the same lock.
\<close>

lemma reschedule_download_never_returns:
  assumes "find (\<lambda>item. task_id (store (item_task item)) = download_id) (scheduled_downloads s)
           = Some item"
  shows "reschedule_download held now store download_id new_time s = None"
  using assms by (simp add: reschedule_download_def unschedule_download_held)

lemma reschedule_download_unknown_id:
  assumes "find (\<lambda>item. task_id (store (item_task item)) = download_id) (scheduled_downloads s)
           = None"
  shows "reschedule_download False now store download_id new_time s = Some (False, store, s)"
  using assms by (simp add: reschedule_download_def)

text \<open>
  C10 (the code at the failing input). The task \<open>0123456789ab\<close> is scheduled at 5000
  and the clock reads 1000; rescheduling it to the past time 10, from a thread that does
  not hold the lock, has no result: the call does not return \<open>False\<close>, it does not
  return.
\<close>

theorem reschedule_download_blocks:
  "map (\<lambda>item. task_id (example_store (item_task item)))
        (scheduled_downloads scheduler_with_entry) = [''0123456789ab'']
   \<and> reschedule_download False 1000 example_store ''0123456789ab'' 10 scheduler_with_entry
       = None"
  by (simp add: scheduler_with_entry_def new_scheduler_def example_store_def
      reschedule_download_def unschedule_download_def)

lemma find_index_Some:
  "find_index P xs = Some i \<Longrightarrow> i < length xs \<and> P (xs ! i) \<and> (\<forall>j < i. \<not> P (xs ! j))"
proof (induction xs arbitrary: i)
  case Nil
  then show ?case by simp
next
  case (Cons x xs)
  show ?case
  proof (cases "P x")
    case True
    with Cons.prems show ?thesis by simp
  next
    case False
    with Cons.prems obtain k where k: "find_index P xs = Some k" "i = Suc k"
      by auto
    from Cons.IH [OF k(1)] False k(2) show ?thesis
      by (auto simp: less_Suc_eq_0_disj)
  qed
qed

lemma mset_delete_at:
  "i < length xs \<Longrightarrow> mset (delete_at i xs) = mset xs - {#xs ! i#}"
  by (metis add_mset_remove_trivial delete_at_def id_take_nth_drop mset.simps(2) mset_append
      union_mset_add_mset_right)

text \<open>
  What the two calls inside \<open>reschedule_download\<close> do when they are made one after the
  other by a thread that does not hold the lock: the entry is removed, and a new time
  that is not in the future is then refused, which leaves the task unscheduled.
\<close>

lemma unschedule_then_schedule_past:
  assumes i: "find_index (\<lambda>item. task_id (store (item_task item)) = download_id)
              (scheduled_downloads s) = Some i"
    and past: "new_time \<le> now"
  defines "r \<equiv> item_task (scheduled_downloads s ! i)"
  defines "store' \<equiv> store(r := (store r)\<lparr>scheduled_time := Some new_time\<rparr>)"
  shows "\<exists>s'. unschedule_download False store download_id s = Some (True, s')
              \<and> mset (scheduled_downloads s')
                  = mset (scheduled_downloads s) - {#scheduled_downloads s ! i#}
              \<and> schedule_download False now store' r s' = Some (False, s')"
proof -
  from find_index_Some [OF i] have "i < length (scheduled_downloads s)"
    by simp
  then have "mset (heapify scheduled_item_lt (delete_at i (scheduled_downloads s)))
             = mset (scheduled_downloads s) - {#scheduled_downloads s ! i#}"
    by (simp add: mset_heapify mset_delete_at)
  with i past show ?thesis
    by (simp add: unschedule_download_def schedule_download_def store'_def)
qed

section \<open>Persistence\<close>

lemma insert_parts_overflow:
  "insert_parts ps numbers = Inl e \<Longrightarrow> e = OverflowError"
  by (induction ps arbitrary: numbers) (auto split: if_splits)

lemma save_download_raises:
  "(\<exists>e. save_download st t rows = Inl e) = save_raises st t"
  by (cases st; cases "insert_parts (parts t) []")
     (auto simp: save_download_def save_raises_def dest: insert_parts_overflow)

lemma save_download_overflow:
  "save_download st t rows = Inl e \<Longrightarrow> e = OverflowError"
  by (auto simp: save_download_def dest: insert_parts_overflow split: if_splits sum.splits)

lemma save_download_stored:
  "storable t \<Longrightarrow> save_download Working t rows = Inr (True, store_row t rows)"
  by (simp add: save_download_def storable_def)

lemma save_download_table:
  "save_download st t rows = Inr (saved, rows') \<Longrightarrow>
   rows' = (if saved then store_row t rows else rows)"
  by (auto simp: save_download_def split: if_splits sum.splits)

lemma map_of_store_row:
  "map_option status (map_of (store_row t rows) (task_id t)) = Some (status t)"
  by (simp add: store_row_def update_conv')

lemma save_raises_status [simp]: "save_raises st (t\<lparr>status := s\<rparr>) = save_raises st t"
  by (simp add: save_raises_def task_integers_def)

lemma storable_status [simp]: "storable (t\<lparr>status := s\<rparr>) = storable t"
  by (simp add: storable_def task_integers_def)

lemma storable_not_raises: "storable t \<Longrightarrow> \<not> save_raises st t"
  by (auto simp: storable_def save_raises_def)

section \<open>Manager\<close>

subsection \<open>Saving from the manager\<close>

lemma db_save_raises:
  "save_raises (db_state m) (objects m r) \<Longrightarrow> db_save r m = Inl OverflowError"
proof -
  assume "save_raises (db_state m) (objects m r)"
  then obtain e where e: "save_download (db_state m) (objects m r) (db m) = Inl e"
    using save_download_raises by blast
  with save_download_overflow [OF e] show ?thesis
    by (simp add: db_save_def)
qed

lemma db_save_returns:
  assumes "\<not> save_raises (db_state m) (objects m r)"
  shows "\<exists>rows. db_save r m = Inr (m\<lparr>db := rows\<rparr>)"
proof (cases "save_download (db_state m) (objects m r) (db m)")
  case (Inl e)
  with assms save_download_raises show ?thesis by blast
next
  case (Inr p)
  then show ?thesis by (cases p) (auto simp: db_save_def)
qed

lemma db_save_stored:
  "db_state m = Working \<Longrightarrow> storable (objects m r) \<Longrightarrow>
   db_save r m = Inr (m\<lparr>db := store_row (objects m r) (db m)\<rparr>)"
  by (simp add: db_save_def save_download_stored)

lemma after_notify_status_callbacks [simp]:
  "objects (notify_status_callbacks r m) = objects m"
  "all_downloads (notify_status_callbacks r m) = all_downloads m"
  "db (notify_status_callbacks r m) = db m"
  "db_state (notify_status_callbacks r m) = db_state m"
  by (simp_all add: notify_status_callbacks_def)

text \<open>
  The status callback either raises at once, leaving the manager as it was, or returns a
  manager with the same tasks, the same table of downloads and the same database file.
\<close>

lemma after_on_status_change:
  "case on_status_change r m of
     Inl (e, m') \<Rightarrow> m' = m
   | Inr m' \<Rightarrow> objects m' = objects m \<and> all_downloads m' = all_downloads m
               \<and> db_state m' = db_state m"
proof (cases "save_raises (db_state m) (objects m r)")
  case True
  then show ?thesis
    by (simp add: on_status_change_def db_save_raises)
next
  case False
  from db_save_returns [OF this] obtain rows where "db_save r m = Inr (m\<lparr>db := rows\<rparr>)" ..
  then show ?thesis
    by (simp add: on_status_change_def Let_def)
qed

subsection \<open>Cancelling\<close>

text \<open>
  The manager as \<open>cancel_download\<close> has it when it reaches its own \<open>task.cancel()\<close>:
  the engine, when it was called, has marked the task Cancelled, and the tables are
  those of the manager before the call.
\<close>

lemma cancel_download_engine_part:
  assumes "get_download download_id m = Some r"
  shows "\<exists>m1. cancel_download download_id m
              = (case db_save r (m1\<lparr>objects := (objects m1)(r := cancel (objects m1 r))\<rparr>) of
                   Inl e \<Rightarrow> Inl (e, m1\<lparr>objects := (objects m1)(r := cancel (objects m1 r))\<rparr>)
                 | Inr m3 \<Rightarrow>
                     Inr (True, notify_status_callbacks r
                                  (m3\<lparr>active := AList.delete download_id (active m3)\<rparr>)))
            \<and> cancel (objects m1 r) = cancel (objects m r)
            \<and> all_downloads m1 = all_downloads m \<and> db_state m1 = db_state m
            \<and> (save_raises (db_state m) (objects m r) \<longrightarrow> db m1 = db m)"
proof (cases "status (objects m r) = DOWNLOADING")
  case False
  with assms show ?thesis
    by (intro exI [of _ m]) (simp add: cancel_download_def Let_def)
next
  case True
  obtain ok t' e' where c: "engine_cancel_download (objects m r) (engine m) = (ok, t', e')"
    by (cases "engine_cancel_download (objects m r) (engine m)")
  then have t': "t' = cancel (objects m r)"
    by (auto simp: engine_cancel_download_def Let_def)
  define m0 where "m0 = m\<lparr>objects := (objects m)(r := t'), engine := e'\<rparr>"
  define m1 where "m1 = (case on_status_change r m0 of Inl (e, m') \<Rightarrow> m' | Inr m' \<Rightarrow> m')"
  have p: "objects m1 = objects m0 \<and> all_downloads m1 = all_downloads m0
           \<and> db_state m1 = db_state m0"
    using after_on_status_change [where r = r and m = m0]
    by (auto simp: m1_def split: sum.splits)
  have d: "db m1 = db m" if "save_raises (db_state m) (objects m r)"
  proof -
    from that have "save_raises (db_state m0) (objects m0 r)"
      by (simp add: m0_def t' cancel_def)
    then have "on_status_change r m0 = Inl (OverflowError, m0)"
      by (simp add: on_status_change_def db_save_raises)
    then show ?thesis
      by (simp add: m1_def m0_def)
  qed
  show ?thesis
  proof (intro exI [of _ m1] conjI impI)
    show "cancel_download download_id m
            = (case db_save r (m1\<lparr>objects := (objects m1)(r := cancel (objects m1 r))\<rparr>) of
                 Inl e \<Rightarrow> Inl (e, m1\<lparr>objects := (objects m1)(r := cancel (objects m1 r))\<rparr>)
               | Inr m3 \<Rightarrow>
                   Inr (True, notify_status_callbacks r
                                (m3\<lparr>active := AList.delete download_id (active m3)\<rparr>)))"
      using assms True c
      by (simp add: cancel_download_def Let_def m0_def [symmetric] m1_def [symmetric])
    show "cancel (objects m1 r) = cancel (objects m r)"
      using p by (simp add: m0_def t' cancel_def)
    show "all_downloads m1 = all_downloads m" "db_state m1 = db_state m"
      using p by (simp_all add: m0_def)
    show "db m1 = db m" if "save_raises (db_state m) (objects m r)"
      using that by (rule d)
  qed
qed

text \<open>
  For every id the manager knows, whatever the status of the task: when
  \<open>save_download\<close> does not raise for the task, \<open>cancel_download\<close> returns
  \<open>True\<close> and leaves the task with status Cancelled, and the task stays in the
  manager's table; when the database works and stores the task, its row says Cancelled.
\<close>

lemma cancel_download_returns_true:
  assumes "get_download download_id m = Some r"
    and "\<not> save_raises (db_state m) (objects m r)"
  shows "\<exists>m'. cancel_download download_id m = Inr (True, m')
            \<and> status (objects m' r) = CANCELLED
            \<and> get_download download_id m' = Some r
            \<and> (db_state m = Working \<and> storable (objects m r) \<longrightarrow>
                 map_option status (map_of (db m') (task_id (objects m r))) = Some CANCELLED)"
proof -
  from cancel_download_engine_part [OF assms(1)] obtain m1 where
    c: "cancel_download download_id m
          = (case db_save r (m1\<lparr>objects := (objects m1)(r := cancel (objects m1 r))\<rparr>) of
               Inl e \<Rightarrow> Inl (e, m1\<lparr>objects := (objects m1)(r := cancel (objects m1 r))\<rparr>)
             | Inr m3 \<Rightarrow>
                 Inr (True, notify_status_callbacks r
                              (m3\<lparr>active := AList.delete download_id (active m3)\<rparr>)))"
    and o: "cancel (objects m1 r) = cancel (objects m r)"
    and a: "all_downloads m1 = all_downloads m" and s: "db_state m1 = db_state m"
    by blast
  define m2 where "m2 = m1\<lparr>objects := (objects m1)(r := cancel (objects m r))\<rparr>"
  have n: "\<not> save_raises (db_state m2) (objects m2 r)"
    using assms(2) by (simp add: m2_def s cancel_def)
  from db_save_returns [OF n] obtain rows where rows: "db_save r m2 = Inr (m2\<lparr>db := rows\<rparr>)" ..
  have w: "rows = store_row (cancel (objects m r)) (db m1)"
    if "db_state m = Working" and "storable (objects m r)"
  proof -
    from that have "db_save r m2 = Inr (m2\<lparr>db := store_row (objects m2 r) (db m2)\<rparr>)"
      by (intro db_save_stored) (simp_all add: m2_def s cancel_def)
    with rows have "m2\<lparr>db := rows\<rparr> = m2\<lparr>db := store_row (objects m2 r) (db m2)\<rparr>"
      by simp
    then have "db (m2\<lparr>db := rows\<rparr>) = db (m2\<lparr>db := store_row (objects m2 r) (db m2)\<rparr>)"
      by (rule arg_cong)
    then show ?thesis
      by (simp add: m2_def)
  qed
  show ?thesis
  proof (intro exI conjI impI)
    show "cancel_download download_id m
          = Inr (True, notify_status_callbacks r
                         ((m2\<lparr>db := rows\<rparr>)\<lparr>active := AList.delete download_id (active m2)\<rparr>))"
      using rows by (simp add: c o m2_def [symmetric])
    show "status (objects (notify_status_callbacks r
             ((m2\<lparr>db := rows\<rparr>)\<lparr>active := AList.delete download_id (active m2)\<rparr>)) r) = CANCELLED"
      by (simp add: m2_def cancel_def)
    show "get_download download_id (notify_status_callbacks r
             ((m2\<lparr>db := rows\<rparr>)\<lparr>active := AList.delete download_id (active m2)\<rparr>)) = Some r"
      using assms(1) by (simp add: get_download_def m2_def a)
    show "map_option status (map_of (db (notify_status_callbacks r
             ((m2\<lparr>db := rows\<rparr>)\<lparr>active := AList.delete download_id (active m2)\<rparr>)))
             (task_id (objects m r))) = Some CANCELLED"
      if "db_state m = Working \<and> storable (objects m r)"
      using that w map_of_store_row [of "cancel (objects m r)" "db m1"]
      by (simp add: cancel_def)
  qed
qed

text \<open>
  When \<open>save_download\<close> raises for the task, \<open>cancel_download\<close> returns nothing:
  the \<open>OverflowError\<close> leaves it, with the task marked Cancelled in memory and the
  database as it was.
\<close>

lemma cancel_download_raises:
  assumes "get_download download_id m = Some r"
    and "save_raises (db_state m) (objects m r)"
  shows "\<exists>m'. cancel_download download_id m = Inl (OverflowError, m')
            \<and> status (objects m' r) = CANCELLED \<and> db m' = db m"
proof -
  from cancel_download_engine_part [OF assms(1)] assms(2) obtain m1 where
    c: "cancel_download download_id m
          = (case db_save r (m1\<lparr>objects := (objects m1)(r := cancel (objects m1 r))\<rparr>) of
               Inl e \<Rightarrow> Inl (e, m1\<lparr>objects := (objects m1)(r := cancel (objects m1 r))\<rparr>)
             | Inr m3 \<Rightarrow>
                 Inr (True, notify_status_callbacks r
                              (m3\<lparr>active := AList.delete download_id (active m3)\<rparr>)))"
    and o: "cancel (objects m1 r) = cancel (objects m r)"
    and s: "db_state m1 = db_state m" and d: "db m1 = db m"
    by blast
  define m2 where "m2 = m1\<lparr>objects := (objects m1)(r := cancel (objects m r))\<rparr>"
  have "save_raises (db_state m2) (objects m2 r)"
    using assms(2) by (simp add: m2_def s cancel_def)
  then have "db_save r m2 = Inl OverflowError"
    by (rule db_save_raises)
  then have "cancel_download download_id m = Inl (OverflowError, m2)"
    by (simp add: c o m2_def [symmetric])
  moreover have "status (objects m2 r) = CANCELLED" "db m2 = db m"
    by (simp_all add: m2_def cancel_def d)
  ultimately show ?thesis
    by blast
qed

text \<open>
  C9 (the code at the failing input). The manager knows a task with status Error whose
  \<open>file_size\<close> is \<open>2 ^ 63\<close>. \<open>cancel_download\<close> does not return \<open>True\<close>: it marks
  the task Cancelled and then \<open>save_download\<close> raises \<open>OverflowError\<close>, which nothing
  catches; the row of the task is not written.
\<close>

theorem cancel_download_overflow:
  "get_download ''0123456789ab'' oversized_manager = Some 0
   \<and> status (objects oversized_manager 0) = ERROR
   \<and> file_size (objects oversized_manager 0) = 2 ^ 63
   \<and> cancel_download ''0123456789ab'' oversized_manager
       = Inl (OverflowError,
              oversized_manager\<lparr>objects := (objects oversized_manager)(0 := cancel oversized_task)\<rparr>)"
proof -
  have g: "get_download ''0123456789ab'' oversized_manager = Some 0"
    by (simp add: get_download_def oversized_manager_def)
  have o: "objects oversized_manager 0 = oversized_task"
    by (simp add: oversized_manager_def new_manager_def constant_store_def)
  have s: "status oversized_task = ERROR" "file_size oversized_task = 2 ^ 63"
    by (simp_all add: oversized_task_def error_def update_task_with_file_info_def
        oversized_info_def Let_def)
  have "\<not> list_all sqlite_integer (task_integers (cancel oversized_task))"
    using s(2) by (simp add: task_integers_def cancel_def sqlite_integer_def)
  then have "save_download Working (cancel oversized_task) (db oversized_manager)
             = Inl OverflowError"
    by (simp add: save_download_def)
  then have "cancel_download ''0123456789ab'' oversized_manager
       = Inl (OverflowError,
              oversized_manager\<lparr>objects := (objects oversized_manager)(0 := cancel oversized_task)\<rparr>)"
    using g o s(1)
    by (simp add: cancel_download_def Let_def db_save_def oversized_manager_def new_manager_def)
  with g o s show ?thesis
    by simp
qed

text \<open>A task that completed is cancelled all the same.\<close>

lemma cancel_download_completed_task:
  "get_download ''0123456789ab'' (manager_with completed_task) = Some 0
   \<and> status (objects (manager_with completed_task) 0) = COMPLETED
   \<and> (\<exists>m'. cancel_download ''0123456789ab'' (manager_with completed_task) = Inr (True, m')
           \<and> status (objects m' 0) = CANCELLED)"
proof -
  have g: "get_download ''0123456789ab'' (manager_with completed_task) = Some 0"
    by (simp add: get_download_def manager_with_def new_manager_def completed_task_def
        complete_def probed_task_def new_task_def)
  have c: "status (objects (manager_with completed_task) 0) = COMPLETED"
    by (simp add: manager_with_def new_manager_def completed_task_def complete_def
        constant_store_def)
  have "storable (objects (manager_with completed_task) 0)"
    by (simp add: manager_with_def new_manager_def completed_task_def complete_def
        constant_store_def storable_def task_integers_def sqlite_integer_def probed_task_def
        new_task_def)
  then have "\<not> save_raises (db_state (manager_with completed_task))
                 (objects (manager_with completed_task) 0)"
    by (rule storable_not_raises)
  from cancel_download_returns_true [OF g this] g c show ?thesis
    by blast
qed

subsection \<open>Adding a download\<close>

lemma is_duplicate_url_iff:
  "is_duplicate_url u m
   \<longleftrightarrow> (\<exists>r \<in> set (map snd (all_downloads m)).
          url (objects m r) = u \<and> status (objects m r) \<noteq> COMPLETED
          \<and> status (objects m r) \<noteq> CANCELLED)"
  by (auto simp: is_duplicate_url_def list_ex_iff)

text \<open>
  Of the integers of the task \<open>add_download\<close> prepares only the priority is the
  caller's, and the task has no parts: the first \<open>save_download\<close> raises exactly when
  the file can be opened and the priority is not a 64-bit integer.
\<close>

lemma save_raises_prepared_task:
  "save_raises st (prepared_task env u fname dest sched prio)
   = (st \<noteq> CannotOpen \<and> \<not> sqlite_integer prio)"
proof -
  have "task_integers (prepared_task env u fname dest sched prio) = [0, 0, 0, 3, 1, prio]"
    "parts (prepared_task env u fname dest sched prio) = []"
    by (simp_all add: prepared_task_def Let_def task_integers_def new_task_def
        split: option.splits)
  then show ?thesis
    by (simp add: save_raises_def sqlite_integer_def)
qed

lemma queue_download_returns:
  assumes "\<not> save_raises (db_state m) (objects m r)"
  shows "\<exists>m'. queue_download r m = Inr m'"
proof -
  define m2 where "m2 = set_status r QUEUED
    (m\<lparr>download_queue := queue_put (download_queue m)
          \<lparr>qd_priority = priority (objects m r), qd_task = r\<rparr>\<rparr>)"
  have "\<not> save_raises (db_state m2) (objects m2 r)"
    using assms by (simp add: m2_def set_status_def)
  from db_save_returns [OF this] obtain rows where "db_save r m2 = Inr (m2\<lparr>db := rows\<rparr>)" ..
  then show ?thesis
    by (simp add: queue_download_def Let_def m2_def [symmetric])
qed

lemma schedule_or_queue_returns:
  assumes "\<not> save_raises (db_state m) (objects m r)"
  shows "\<exists>m'. schedule_or_queue env sched r m = Some (Inr m')"
proof (cases sched)
  case None
  with queue_download_returns [OF assms] show ?thesis
    by (auto simp: schedule_or_queue_def)
next
  case (Some st)
  obtain b s' where "schedule_download False (env_clock env) (objects m) r (scheduler m) = Some (b, s')"
    using schedule_download_returns by blast
  with Some queue_download_returns [OF assms] show ?thesis
    by (auto simp: schedule_or_queue_def)
qed

lemma add_download_accepts:
  assumes "env_url_valid env u" and "\<not> is_duplicate_url u m"
    and "db_state m = CannotOpen \<or> sqlite_integer prio"
  shows "\<exists>m'. add_download env u fname dest sched prio m = Some (Inr (next_ref m), m')"
proof -
  define t where "t = prepared_task env u fname dest sched prio"
  define m1 where "m1 = m\<lparr>objects := (objects m)(next_ref m := t), next_ref := Suc (next_ref m)\<rparr>"
  have n: "\<not> save_raises (db_state m1) (objects m1 (next_ref m))"
    using assms(3) by (auto simp: m1_def t_def save_raises_prepared_task)
  from db_save_returns [OF n] obtain rows where rows: "db_save (next_ref m) m1 = Inr (m1\<lparr>db := rows\<rparr>)" ..
  define m3 where "m3 =
    m1\<lparr>db := rows, all_downloads := AList.update (task_id t) (next_ref m) (all_downloads m1)\<rparr>"
  have "\<not> save_raises (db_state m3) (objects m3 (next_ref m))"
    using n by (simp add: m3_def)
  from schedule_or_queue_returns [OF this]
  obtain m4 where "schedule_or_queue env sched (next_ref m) m3 = Some (Inr m4)"
    by blast
  with assms(1,2) rows show ?thesis
    by (simp add: add_download_def Let_def t_def [symmetric] m1_def [symmetric]
        m3_def [symmetric])
qed

lemma add_download_overflow:
  assumes "env_url_valid env u" and "\<not> is_duplicate_url u m"
    and "db_state m \<noteq> CannotOpen" and "\<not> sqlite_integer prio"
  shows "add_download env u fname dest sched prio m = Some (Inl (Raised OverflowError), m)"
proof -
  define t where "t = prepared_task env u fname dest sched prio"
  define m1 where "m1 = m\<lparr>objects := (objects m)(next_ref m := t), next_ref := Suc (next_ref m)\<rparr>"
  have "save_raises (db_state m1) (objects m1 (next_ref m))"
    using assms(3,4) by (simp add: m1_def t_def save_raises_prepared_task)
  then have "db_save (next_ref m) m1 = Inl OverflowError"
    by (rule db_save_raises)
  with assms(1,2) show ?thesis
    by (simp add: add_download_def Let_def t_def [symmetric] m1_def [symmetric])
qed

text \<open>
  C6. For a URL that \<open>validators.url\<close> accepts, \<open>add_download\<close> is rejected as a
  duplicate exactly when a task of the manager's table has that URL and a status other
  than Completed and Cancelled. Otherwise it returns a task, unless the priority is not a
  64-bit integer and the database file can be opened: then \<open>save_download\<close> raises
  and no task is returned either. Whenever no task is returned the manager is exactly as
  before: its table, database, queue, scheduler and callbacks.
\<close>

theorem add_download_duplicate:
  "env_url_valid env u \<longrightarrow>
     ((add_download env u fname dest sched prio m = Some (Inl DuplicateURL, m))
        = (\<exists>r \<in> set (map snd (all_downloads m)).
             url (objects m r) = u \<and> status (objects m r) \<noteq> COMPLETED
             \<and> status (objects m r) \<noteq> CANCELLED))
     \<and> ((\<exists>r m'. add_download env u fname dest sched prio m = Some (Inr r, m'))
        = (\<not> (\<exists>r \<in> set (map snd (all_downloads m)).
               url (objects m r) = u \<and> status (objects m r) \<noteq> COMPLETED
               \<and> status (objects m r) \<noteq> CANCELLED)
           \<and> (db_state m = CannotOpen \<or> sqlite_integer prio)))
     \<and> (\<forall>e m'. add_download env u fname dest sched prio m = Some (Inl e, m') \<longrightarrow> m' = m)"
proof
  assume v: "env_url_valid env u"
  show "((add_download env u fname dest sched prio m = Some (Inl DuplicateURL, m))
        = (\<exists>r \<in> set (map snd (all_downloads m)).
             url (objects m r) = u \<and> status (objects m r) \<noteq> COMPLETED
             \<and> status (objects m r) \<noteq> CANCELLED))
     \<and> ((\<exists>r m'. add_download env u fname dest sched prio m = Some (Inr r, m'))
        = (\<not> (\<exists>r \<in> set (map snd (all_downloads m)).
               url (objects m r) = u \<and> status (objects m r) \<noteq> COMPLETED
               \<and> status (objects m r) \<noteq> CANCELLED)
           \<and> (db_state m = CannotOpen \<or> sqlite_integer prio)))
     \<and> (\<forall>e m'. add_download env u fname dest sched prio m = Some (Inl e, m') \<longrightarrow> m' = m)"
  proof (cases "is_duplicate_url u m")
    case True
    with v have "add_download env u fname dest sched prio m = Some (Inl DuplicateURL, m)"
      by (simp add: add_download_def)
    with True is_duplicate_url_iff [of u m] show ?thesis
      by simp
  next
    case False
    show ?thesis
    proof (cases "db_state m = CannotOpen \<or> sqlite_integer prio")
      case True
      from add_download_accepts [OF v False True, of fname dest sched]
      obtain m' where "add_download env u fname dest sched prio m = Some (Inr (next_ref m), m')"
        by blast
      with False True is_duplicate_url_iff [of u m] show ?thesis
        by simp
    next
      case n: False
      then have "add_download env u fname dest sched prio m
                 = Some (Inl (Raised OverflowError), m)"
        using add_download_overflow [OF v False, of prio fname dest sched] by simp
      with False n is_duplicate_url_iff [of u m] show ?thesis
        by simp
    qed
  qed
qed

theorem add_download_duplicate_witness:
  "env_url_valid example_env ''http://host/big.bin''
   \<and> add_download example_env ''http://host/big.bin'' None None None 0 (manager_with paused_task)
       = Some (Inl DuplicateURL, manager_with paused_task)
   \<and> (\<exists>r m'. add_download example_env ''http://host/big.bin'' None None None 0
                 (manager_with (cancel paused_task)) = Some (Inr r, m'))"
proof -
  have v: "env_url_valid example_env ''http://host/big.bin''"
    by (simp add: example_env_def)
  have u: "url paused_task = ''http://host/big.bin''" "status paused_task = PAUSED"
    by (simp_all add: paused_task_def probed_task_def new_task_def)
  have d: "\<exists>r \<in> set (map snd (all_downloads (manager_with paused_task))).
             url (objects (manager_with paused_task) r) = ''http://host/big.bin''
             \<and> status (objects (manager_with paused_task) r) \<noteq> COMPLETED
             \<and> status (objects (manager_with paused_task) r) \<noteq> CANCELLED"
    by (simp add: manager_with_def new_manager_def constant_store_def u)
  have n: "\<not> (\<exists>r \<in> set (map snd (all_downloads (manager_with (cancel paused_task)))).
             url (objects (manager_with (cancel paused_task)) r) = ''http://host/big.bin''
             \<and> status (objects (manager_with (cancel paused_task)) r) \<noteq> COMPLETED
             \<and> status (objects (manager_with (cancel paused_task)) r) \<noteq> CANCELLED)"
    by (simp add: manager_with_def new_manager_def constant_store_def cancel_def)
  have z: "sqlite_integer 0"
    by (simp add: sqlite_integer_def)
  from v d
    add_download_duplicate [of example_env "''http://host/big.bin''" None None None 0
      "manager_with paused_task"]
  have "add_download example_env ''http://host/big.bin'' None None None 0
          (manager_with paused_task) = Some (Inl DuplicateURL, manager_with paused_task)"
    by blast
  moreover from v n z
    add_download_duplicate [of example_env "''http://host/big.bin''" None None None 0
      "manager_with (cancel paused_task)"]
  have "\<exists>r m'. add_download example_env ''http://host/big.bin'' None None None 0
                 (manager_with (cancel paused_task)) = Some (Inr r, m')"
    by blast
  ultimately show ?thesis
    using v by blast
qed

subsection \<open>Startup recovery\<close>

text \<open>
  While the database works and stores the tasks that were Downloading, one round of the
  loop is \<open>load_one\<close>.
\<close>

lemma load_downloads_Cons:
  assumes "0 \<le> now" and "db_state m = Working" and "status t = DOWNLOADING \<longrightarrow> storable t"
  shows "load_downloads_loop now (t # ts) m = load_downloads_loop now ts (load_one now t m)"
proof (cases "scheduled_time t")
  case None
  with assms(2,3) show ?thesis
    by (cases m)
       (simp add: Let_def load_one_def recovered_def future_entry_def is_scheduled_def
        set_status_def db_save_def save_download_stored)
next
  case (Some st)
  show ?thesis
  proof (cases "st > now")
    case False
    with Some assms(2,3) show ?thesis
      by (cases m)
         (simp add: Let_def load_one_def recovered_def future_entry_def is_scheduled_def
          set_status_def db_save_def save_download_stored)
  next
    case True
    with assms have "st \<noteq> 0" by simp
    with Some True assms(2,3) show ?thesis
      by (cases m)
         (simp add: Let_def load_one_def recovered_def future_entry_def is_scheduled_def
          set_status_def db_save_def save_download_stored schedule_download_def)
  qed
qed

lemma db_state_load_one [simp]: "db_state (load_one now t m) = db_state m"
  by (simp add: load_one_def)

lemma load_downloads_fold:
  "0 \<le> now \<Longrightarrow> db_state m = Working \<Longrightarrow>
   \<forall>t \<in> set ts. status t = DOWNLOADING \<longrightarrow> storable t \<Longrightarrow>
   load_downloads_loop now ts m = Some (Inr (fold (load_one now) ts m))"
  by (induction ts arbitrary: m) (simp_all add: load_downloads_Cons del: load_downloads_loop.simps(2))

lemma next_ref_loaded: "next_ref (fold (load_one now) ts m) = next_ref m + length ts"
  by (induction ts arbitrary: m) (simp_all add: load_one_def)

lemma objects_loaded_old:
  "r < next_ref m \<Longrightarrow> objects (fold (load_one now) ts m) r = objects m r"
  by (induction ts arbitrary: m) (simp_all add: load_one_def)

lemma all_downloads_loaded_other:
  "k \<notin> task_id ` set ts \<Longrightarrow>
   map_of (all_downloads (fold (load_one now) ts m)) k = map_of (all_downloads m) k"
  by (induction ts arbitrary: m) (simp_all add: load_one_def update_conv')

lemma db_loaded_other:
  "k \<notin> task_id ` set ts \<Longrightarrow> map_of (db (fold (load_one now) ts m)) k = map_of (db m) k"
  by (induction ts arbitrary: m)
     (auto simp: load_one_def store_row_def update_conv' recovered_def)

lemma mset_scheduled_load_one:
  "mset (scheduled_downloads (scheduler (load_one now t m)))
   = mset (scheduled_downloads (scheduler m)) + mset (future_entry now (next_ref m) t)"
  by (simp add: load_one_def future_entry_def mset_heappush split: option.splits)

lemma mset_scheduled_loaded:
  "mset (scheduled_downloads (scheduler (fold (load_one now) ts m)))
   = mset (scheduled_downloads (scheduler m)) + mset (future_entries now (next_ref m) ts)"
proof (induction ts arbitrary: m)
  case Nil
  show ?case by simp
next
  case (Cons t ts)
  have "next_ref (load_one now t m) = Suc (next_ref m)"
    by (simp add: load_one_def)
  with Cons [of "load_one now t m"] show ?case
    by (simp add: mset_scheduled_load_one)
qed

lemma future_entries_nth:
  "i < length ts \<Longrightarrow> set (future_entry now (r + i) (ts ! i)) \<subseteq> set (future_entries now r ts)"
proof (induction ts arbitrary: r i)
  case Nil
  then show ?case by simp
next
  case (Cons t ts)
  show ?case
  proof (cases i)
    case 0
    then show ?thesis by simp
  next
    case (Suc j)
    with Cons.prems Cons.IH [of j "Suc r"] show ?thesis by auto
  qed
qed

lemma loaded_task:
  assumes "distinct (map task_id ts)" and "i < length ts"
  shows "get_download (task_id (ts ! i)) (fold (load_one now) ts m) = Some (next_ref m + i)
       \<and> objects (fold (load_one now) ts m) (next_ref m + i) = recovered (ts ! i)
       \<and> (status (ts ! i) = DOWNLOADING \<longrightarrow>
            map_option status (map_of (db (fold (load_one now) ts m)) (task_id (ts ! i)))
            = Some PAUSED)"
  using assms
proof (induction ts arbitrary: m i)
  case Nil
  then show ?case by simp
next
  case (Cons t ts)
  have nr: "next_ref (load_one now t m) = Suc (next_ref m)"
    by (simp add: load_one_def)
  from Cons.prems(1) have d: "distinct (map task_id ts)" and n: "task_id t \<notin> task_id ` set ts"
    by auto
  show ?case
  proof (cases i)
    case 0
    have "get_download (task_id t) (fold (load_one now) ts (load_one now t m))
          = Some (next_ref m)"
      using n by (simp add: get_download_def all_downloads_loaded_other load_one_def update_conv')
    moreover have "objects (fold (load_one now) ts (load_one now t m)) (next_ref m) = recovered t"
    proof -
      have "next_ref m < next_ref (load_one now t m)" by (simp add: nr)
      from objects_loaded_old [OF this, of now ts] show ?thesis
        by (simp add: load_one_def)
    qed
    moreover have "map_option status
                     (map_of (db (fold (load_one now) ts (load_one now t m))) (task_id t))
                   = Some PAUSED" if s: "status t = DOWNLOADING"
    proof -
      have "map_option status
              (map_of (store_row (recovered t) (db m)) (task_id (recovered t)))
            = Some (status (recovered t))"
        by (rule map_of_store_row)
      with s have "map_option status (map_of (db (load_one now t m)) (task_id t)) = Some PAUSED"
        by (simp add: load_one_def recovered_def)
      with n show ?thesis
        by (simp add: db_loaded_other)
    qed
    ultimately show ?thesis
      using 0 by simp
  next
    case (Suc j)
    with Cons.prems(2) Cons.IH [OF d, of j "load_one now t m"] nr show ?thesis
      by simp
  qed
qed

text \<open>
  The loop of \<open>_load_downloads\<close>, given the loaded tasks, returns, and for every
  loaded task (the ids being the primary key of the table, no two loaded tasks share one;
  the clock does not read a time before the epoch; the database works and stores the
  tasks, which it does for tasks it has stored before): the manager's table maps its id
  to it;
  a task that was Downloading is Paused, with nothing else changed, and its row in the
  database says Paused; a task with any other status is as it was loaded; and a task
  whose \<open>scheduled_time\<close> is later than the clock reading has its entry in the
  scheduler.
\<close>

lemma load_downloads_loop_recovery:
  assumes "distinct (map task_id ts)" and "0 \<le> now"
    and "db_state m = Working" and "\<forall>t \<in> set ts. status t = DOWNLOADING \<longrightarrow> storable t"
  shows "\<exists>m'. load_downloads_loop now ts m = Some (Inr m')
     \<and> (\<forall>i < length ts.
          get_download (task_id (ts ! i)) m' = Some (next_ref m + i)
        \<and> objects m' (next_ref m + i)
            = (if status (ts ! i) = DOWNLOADING then (ts ! i)\<lparr>status := PAUSED\<rparr> else ts ! i)
        \<and> (status (ts ! i) = DOWNLOADING \<longrightarrow>
             map_option status (map_of (db m') (task_id (ts ! i))) = Some PAUSED)
        \<and> (\<forall>st. scheduled_time (ts ! i) = Some st \<and> now < st \<longrightarrow>
               \<lparr>item_scheduled_time = st, item_task = next_ref m + i\<rparr>
                 \<in> set (scheduled_downloads (scheduler m'))))"
proof (intro exI conjI allI impI)
  show "load_downloads_loop now ts m = Some (Inr (fold (load_one now) ts m))"
    using assms(2,3,4) by (rule load_downloads_fold)
next
  fix i assume i: "i < length ts"
  note l = loaded_task [OF assms(1) i, of now m]
  from l show "get_download (task_id (ts ! i)) (fold (load_one now) ts m) = Some (next_ref m + i)"
    by simp
  from l show "objects (fold (load_one now) ts m) (next_ref m + i)
            = (if status (ts ! i) = DOWNLOADING then (ts ! i)\<lparr>status := PAUSED\<rparr> else ts ! i)"
    by (simp add: recovered_def)
  { assume "status (ts ! i) = DOWNLOADING"
    with l show "map_option status (map_of (db (fold (load_one now) ts m)) (task_id (ts ! i)))
                 = Some PAUSED"
      by simp }
  { fix st assume "scheduled_time (ts ! i) = Some st \<and> now < st"
    then have "\<lparr>item_scheduled_time = st, item_task = next_ref m + i\<rparr>
               \<in> set (future_entry now (next_ref m + i) (ts ! i))"
      by (simp add: future_entry_def)
    with future_entries_nth [OF i, of now "next_ref m"]
    have "\<lparr>item_scheduled_time = st, item_task = next_ref m + i\<rparr>
          \<in># mset (future_entries now (next_ref m) ts)"
      by auto
    then have "\<lparr>item_scheduled_time = st, item_task = next_ref m + i\<rparr>
          \<in># mset (scheduled_downloads (scheduler (fold (load_one now) ts m)))"
      by (simp add: mset_scheduled_loaded)
    then show "\<lparr>item_scheduled_time = st, item_task = next_ref m + i\<rparr>
          \<in> set (scheduled_downloads (scheduler (fold (load_one now) ts m)))"
      by simp }
qed

text \<open>Only those tasks are handed to the scheduler.\<close>

lemma load_downloads_schedules_future_only:
  assumes "0 \<le> now" and "db_state m = Working"
    and "\<forall>t \<in> set ts. status t = DOWNLOADING \<longrightarrow> storable t"
    and "load_downloads_loop now ts m = Some (Inr m')"
  shows "mset (scheduled_downloads (scheduler m'))
         = mset (scheduled_downloads (scheduler m)) + mset (future_entries now (next_ref m) ts)"
proof -
  from assms have "m' = fold (load_one now) ts m"
    by (simp add: load_downloads_fold del: load_downloads_loop.simps)
  then show ?thesis
    by (simp only: mset_scheduled_loaded)
qed

lemma load_downloads_loop_example:
  "\<exists>m'. restarted = Some (Inr m')
       \<and> status (objects m' 0) = PAUSED
       \<and> map_option status (map_of (db m') ''0123456789ab'') = Some PAUSED
       \<and> status (objects m' 1) = QUEUED
       \<and> set (scheduled_downloads (scheduler m')) = {\<lparr>item_scheduled_time = 5000, item_task = 1\<rparr>}"
proof -
  have d: "distinct (map task_id [interrupted_task, future_task])"
    by (simp add: interrupted_task_def future_task_def probed_task_def new_task_def)
  have n: "(0::real) \<le> 1000"
    by simp
  have z: "next_ref stale_manager = 0" and w: "db_state stale_manager = Working"
    by (simp_all add: stale_manager_def new_manager_def)
  have f: "\<forall>t \<in> set [interrupted_task, future_task]. status t = DOWNLOADING \<longrightarrow> storable t"
    by (simp add: interrupted_task_def future_task_def probed_task_def new_task_def
        storable_def task_integers_def sqlite_integer_def)
  from load_downloads_loop_recovery [OF d n w f, folded restarted_def]
  obtain m' where m': "restarted = Some (Inr m')"
    and a: "\<forall>i < length [interrupted_task, future_task].
          get_download (task_id ([interrupted_task, future_task] ! i)) m'
            = Some (next_ref stale_manager + i)
        \<and> objects m' (next_ref stale_manager + i)
            = (if status ([interrupted_task, future_task] ! i) = DOWNLOADING
               then ([interrupted_task, future_task] ! i)\<lparr>status := PAUSED\<rparr>
               else [interrupted_task, future_task] ! i)
        \<and> (status ([interrupted_task, future_task] ! i) = DOWNLOADING \<longrightarrow>
             map_option status (map_of (db m') (task_id ([interrupted_task, future_task] ! i)))
             = Some PAUSED)
        \<and> (\<forall>st. scheduled_time ([interrupted_task, future_task] ! i) = Some st \<and> 1000 < st \<longrightarrow>
               \<lparr>item_scheduled_time = st, item_task = next_ref stale_manager + i\<rparr>
                 \<in> set (scheduled_downloads (scheduler m')))"
    by blast
  from a [rule_format, of 0] z have "status (objects m' 0) = PAUSED"
    "map_option status (map_of (db m') ''0123456789ab'') = Some PAUSED"
    by (simp_all add: interrupted_task_def probed_task_def new_task_def)
  moreover from a [rule_format, of 1] z have "status (objects m' 1) = QUEUED"
    by (simp add: future_task_def)
  moreover have "mset (scheduled_downloads (scheduler m'))
                 = {#\<lparr>item_scheduled_time = 5000, item_task = 1\<rparr>#}"
  proof -
    from m' n w f have "m' = fold (load_one 1000) [interrupted_task, future_task] stale_manager"
      by (simp add: restarted_def load_downloads_fold del: load_downloads_loop.simps)
    then show ?thesis
      using mset_scheduled_loaded [of 1000 "[interrupted_task, future_task]" stale_manager]
      by (simp add: z stale_manager_def new_manager_def new_scheduler_def future_entry_def
          interrupted_task_def future_task_def probed_task_def new_task_def)
  qed
  then have "set (scheduled_downloads (scheduler m'))
                 = {\<lparr>item_scheduled_time = 5000, item_task = 1\<rparr>}"
    by (metis set_mset_mset set_mset_single)
  ultimately show ?thesis
    using m' by blast
qed

text \<open>
  A loaded task that was Downloading and cannot be stored ends the loop, and with it
  \<open>__init__\<close>, by an \<open>OverflowError\<close>. (No such task comes out of the database.)
\<close>

lemma load_downloads_loop_raises:
  assumes "status t = DOWNLOADING" and "save_raises (db_state m) t"
  shows "\<exists>m'. load_downloads_loop now (t # ts) m = Some (Inl (OverflowError, m'))"
proof -
  define m1 where "m1 = set_status (next_ref m) PAUSED
    (m\<lparr>objects := (objects m)(next_ref m := t), next_ref := Suc (next_ref m),
       all_downloads := AList.update (task_id t) (next_ref m) (all_downloads m)\<rparr>)"
  have "save_raises (db_state m1) (objects m1 (next_ref m))"
    using assms(2) by (simp add: m1_def set_status_def)
  then have "db_save (next_ref m) m1 = Inl OverflowError"
    by (rule db_save_raises)
  with assms(1) show ?thesis
    by (simp add: Let_def m1_def [symmetric])
qed

subsection \<open>Loading the persisted tasks\<close>

lemma load_download_held:
  "load_download True st url_segment new_id now download_id rows = None"
  by (simp add: load_download_def)

text \<open>
  Called on its own, by a thread that does not hold the lock, \<open>load_download\<close>
  returns the task of the row.
\<close>

lemma load_download_row:
  assumes "map_of rows download_id = Some row" and "filename row \<noteq> []"
    and "st \<noteq> CannotOpen"
  shows "load_download False st url_segment new_id now download_id rows = Some (Some row)"
proof -
  from assms(2) have "from_dict url_segment new_id now (to_dict row) = Inr (row\<lparr>parts := []\<rparr>)"
    by (cases row)
       (simp add: from_dict_def to_dict_lookups status_of_value_status_value new_task_def)
  with assms(1,3) show ?thesis
    by (simp add: load_download_def)
qed

text \<open>
  A task that \<open>save_download\<close> has stored is the task \<open>load_download\<close> returns
  for its id, with the parts the table holds for it.
\<close>

lemma load_download_after_save:
  assumes "storable t" and "filename t \<noteq> []"
  shows "save_download Working t rows = Inr (True, store_row t rows)
         \<and> load_download False Working url_segment new_id now (task_id t) (store_row t rows)
           = Some (Some (if parts t \<noteq> [] then t
                         else t\<lparr>parts := (case map_of rows (task_id t) of
                                              None \<Rightarrow> [] | Some old \<Rightarrow> parts old)\<rparr>))"
proof -
  define row where "row = (if parts t \<noteq> [] then t
     else t\<lparr>parts := (case map_of rows (task_id t) of None \<Rightarrow> [] | Some old \<Rightarrow> parts old)\<rparr>)"
  have "map_of (store_row t rows) (task_id t) = Some row"
    by (simp add: store_row_def update_conv' row_def)
  moreover have "filename row \<noteq> []"
    using assms(2) by (simp add: row_def)
  ultimately have "load_download False Working url_segment new_id now (task_id t)
                     (store_row t rows) = Some (Some row)"
    by (intro load_download_row) simp_all
  with save_download_stored [OF assms(1)] show ?thesis
    by (simp add: row_def)
qed

text \<open>
  \<open>load_all_downloads\<close> returns the empty list for an empty table, and also when the
  file cannot be opened, and never returns otherwise: it holds the lock when it calls
  \<open>load_download\<close>, which waits for the same lock. So does \<open>_load_downloads\<close>,
  which calls it first.
\<close>

lemma load_each_held:
  "ids \<noteq> [] \<Longrightarrow> load_each True st url_segment new_id now ids rows = None"
  by (cases ids) (simp_all add: load_download_held)

lemma load_all_downloads_never_returns:
  assumes "rows \<noteq> []" and "st \<noteq> CannotOpen"
  shows "load_all_downloads st url_segment new_id now rows = None"
proof -
  have "length (ids_latest_first rows) = length rows"
    by (simp add: ids_latest_first_def)
  with assms(1) have "ids_latest_first rows \<noteq> []"
    by (metis length_0_conv)
  with assms(2) show ?thesis
    by (simp add: load_all_downloads_def load_each_held)
qed

lemma load_all_downloads_empty: "load_all_downloads st url_segment new_id now [] = Some []"
  by (simp add: load_all_downloads_def ids_latest_first_def)

lemma load_downloads_never_returns:
  "db m \<noteq> [] \<Longrightarrow> db_state m \<noteq> CannotOpen \<Longrightarrow> load_downloads url_segment new_id now m = None"
  by (simp add: load_downloads_def load_all_downloads_never_returns)

lemma load_downloads_empty_database:
  "db m = [] \<Longrightarrow> load_downloads url_segment new_id now m = Some (Inr m)"
  by (simp add: load_downloads_def load_all_downloads_empty)

lemma load_downloads_cannot_open:
  "db_state m = CannotOpen \<Longrightarrow> load_downloads url_segment new_id now m = Some (Inr m)"
  by (simp add: load_downloads_def load_all_downloads_def)

text \<open>
  C7 (the code at the failing input). With two persisted tasks, one of them Downloading,
  \<open>_load_downloads\<close> has no result: no task is rewritten to Paused and none is handed
  to the scheduler, the call never gets past loading the tasks.
\<close>

theorem load_downloads_blocks:
  "map fst (db stale_manager) = [''0123456789ab'', ''ba9876543210'']
   \<and> map_option status (map_of (db stale_manager) ''0123456789ab'') = Some DOWNLOADING
   \<and> load_downloads big_bin_segment ''ffffffffffff'' 1000 stale_manager = None"
proof -
  have d: "db stale_manager
           = [(''0123456789ab'', interrupted_task), (''ba9876543210'', future_task)]"
    by (simp add: stale_manager_def new_manager_def)
  then have "db stale_manager \<noteq> []"
    by simp
  moreover have "db_state stale_manager \<noteq> CannotOpen"
    by (simp add: stale_manager_def new_manager_def)
  ultimately have "load_downloads big_bin_segment ''ffffffffffff'' 1000 stale_manager = None"
    by (rule load_downloads_never_returns)
  with d show ?thesis
    by (simp add: interrupted_task_def)
qed

section \<open>The order of the queue\<close>

lemma queued_download_lt_key:
  "queued_download_lt a b = (- qd_priority a < - qd_priority b)"
  by (simp add: queued_download_lt_def)

lemma queue_put_ordered:
  "heap_ordered (\<lambda>q. - qd_priority q) queue \<Longrightarrow>
   heap_ordered (\<lambda>q. - qd_priority q) (queue_put queue item)"
  unfolding queue_put_def by (rule heappush_ordered) (simp_all add: queued_download_lt_def)

text \<open>
  \<open>get\<close> on a queue that \<open>put\<close> and \<open>get\<close> have built returns an entry of the
  highest priority in the queue, and leaves the others.
\<close>

lemma queue_get_highest_priority:
  assumes "heap_ordered (\<lambda>q. - qd_priority q) queue" and "queue_get queue = Some (item, rest)"
  shows "heap_ordered (\<lambda>q. - qd_priority q) rest \<and> mset queue = add_mset item (mset rest)
         \<and> (\<forall>other \<in> set queue. qd_priority other \<le> qd_priority item)"
  using heappop_ordered [of queued_download_lt "\<lambda>q. - qd_priority q" queue item rest] assms
  by (simp add: queue_get_def queued_download_lt_def)

lemma put_all_from:
  "heap_ordered (\<lambda>q. - qd_priority q) queue \<Longrightarrow>
   heap_ordered (\<lambda>q. - qd_priority q) (fold (\<lambda>item queue. queue_put queue item) items queue)
   \<and> mset (fold (\<lambda>item queue. queue_put queue item) items queue) = mset queue + mset items"
  by (induction items arbitrary: queue)
     (simp_all add: queue_put_ordered, simp add: queue_put_def mset_heappush)

lemma put_all_ordered:
  "heap_ordered (\<lambda>q. - qd_priority q) (put_all items)" "mset (put_all items) = mset items"
  using put_all_from [of "[]" items] by (simp_all add: put_all_def heap_ordered_def)

lemma dequeue_upto_descending:
  "heap_ordered (\<lambda>q. - qd_priority q) queue \<Longrightarrow> length queue \<le> n \<Longrightarrow>
   mset (dequeue_upto n queue) = mset queue
   \<and> sorted_wrt (\<lambda>a b. qd_priority a \<ge> qd_priority b) (dequeue_upto n queue)"
proof (induction n arbitrary: queue)
  case 0
  then show ?case by simp
next
  case (Suc n)
  show ?case
  proof (cases "queue_get queue")
    case None
    then have "queue = []"
      by (auto simp: queue_get_def heappop_def Let_def split: if_splits)
    with None show ?thesis by simp
  next
    case (Some p)
    obtain item rest where p: "p = (item, rest)" by (cases p)
    note g = queue_get_highest_priority [OF Suc.prems(1) Some [unfolded p]]
    from g have "length queue = Suc (length rest)"
      by (metis size_add_mset size_mset)
    with Suc.prems(2) have "length rest \<le> n" by simp
    with Suc.IH [of rest] g
    have ih: "mset (dequeue_upto n rest) = mset rest"
      "sorted_wrt (\<lambda>a b. qd_priority a \<ge> qd_priority b) (dequeue_upto n rest)"
      by simp_all
    have "set (dequeue_upto n rest) \<subseteq> set queue"
      using ih(1) g by (metis mset_eq_setD set_mset_add_mset_insert set_mset_mset subset_insertI)
    with g have "\<forall>other \<in> set (dequeue_upto n rest). qd_priority other \<le> qd_priority item"
      by blast
    with ih g Some p show ?thesis
      by simp
  qed
qed

lemma dequeue_all_descending:
  "heap_ordered (\<lambda>q. - qd_priority q) queue \<Longrightarrow>
   mset (dequeue_all queue) = mset queue
   \<and> sorted_wrt (\<lambda>a b. qd_priority a \<ge> qd_priority b) (dequeue_all queue)"
  unfolding dequeue_all_def by (rule dequeue_upto_descending) simp_all

lemma queue_get_nonempty: "queue \<noteq> [] \<Longrightarrow> queue_get queue \<noteq> None"
  by (simp add: queue_get_def heappop_def Let_def)

text \<open>
  The processor takes nothing while \<open>max_concurrent\<close> downloads are active, and
  otherwise starts the entry \<open>get\<close> returns.
\<close>

lemma process_queue_step_slot_busy:
  "max_concurrent \<le> int (length (active m)) \<Longrightarrow>
   process_queue_step max_concurrent start_download_internal m = m"
  by (simp add: process_queue_step_def)

lemma process_queue_step_takes:
  assumes "int (length (active m)) < max_concurrent"
    and "queue_get (download_queue m) = Some (item, rest)"
    and "start_download_internal (qd_task item) (m\<lparr>download_queue := rest\<rparr>) = (ok, m1)"
  shows "process_queue_step max_concurrent start_download_internal m
         = (if ok
            then m1\<lparr>active := AList.update (task_id (objects m1 (qd_task item))) (qd_task item)
                                (active m1)\<rparr>
            else m1)"
  using assms by (simp add: process_queue_step_def)

lemma run_queue_ordered:
  "heap_ordered (\<lambda>q. - qd_priority q) queue \<Longrightarrow>
   heap_ordered (\<lambda>q. - qd_priority q) (snd (run_queue events queue))
   \<and> mset (fst (run_queue events queue)) + mset (snd (run_queue events queue))
       = mset queue + mset (puts events)"
proof (induction events arbitrary: queue)
  case Nil
  then show ?case by simp
next
  case (Cons event events)
  show ?case
  proof (cases event)
    case (Put item)
    with Cons.IH [OF queue_put_ordered [OF Cons.prems, of item]] show ?thesis
      by (simp add: queue_put_def mset_heappush)
  next
    case Get
    show ?thesis
    proof (cases "queue_get queue")
      case None
      with Get Cons.IH [OF Cons.prems] show ?thesis
        by simp
    next
      case (Some p)
      obtain item rest where p: "p = (item, rest)" by (cases p)
      note g = queue_get_highest_priority [OF Cons.prems Some [unfolded p]]
      obtain taken left where r: "run_queue events rest = (taken, left)"
        by (cases "run_queue events rest")
      from g Cons.IH [of rest] r Get Some p show ?thesis
        by simp
    qed
  qed
qed

text \<open>
  C4 (as the code has it). Whatever has been put into and taken from the queue so far,
  the calls of \<open>get\<close> have taken only entries that were put, each once, and the next
  \<open>get\<close> takes an entry of the highest priority that is in the queue at that moment
  (and takes one whenever the queue is not empty). In particular, when entries are put
  one after the other and only then taken, all of them are dequeued, in order of
  descending priority: no entry is dequeued after an entry of strictly lower priority.
\<close>

theorem dequeue_order_by_priority:
  "mset (dequeue_all (put_all items)) = mset items
   \<and> sorted_wrt (\<lambda>a b. qd_priority a \<ge> qd_priority b) (dequeue_all (put_all items))
   \<and> mset (fst (run_queue events [])) + mset (snd (run_queue events [])) = mset (puts events)
   \<and> (snd (run_queue events []) \<noteq> [] \<longrightarrow> queue_get (snd (run_queue events [])) \<noteq> None)
   \<and> (queue_get (snd (run_queue events [])) = Some (item, rest)
        \<longrightarrow> mset (snd (run_queue events [])) = add_mset item (mset rest)
            \<and> (\<forall>other \<in> set rest. qd_priority other \<le> qd_priority item))"
proof -
  have e: "heap_ordered (\<lambda>q. - qd_priority q) []"
    by (simp add: heap_ordered_def)
  note r = run_queue_ordered [OF e, of events]
  have "queue_get (snd (run_queue events [])) = Some (item, rest)
        \<longrightarrow> mset (snd (run_queue events [])) = add_mset item (mset rest)
            \<and> (\<forall>other \<in> set rest. qd_priority other \<le> qd_priority item)"
  proof
    assume g: "queue_get (snd (run_queue events [])) = Some (item, rest)"
    note h = queue_get_highest_priority [OF conjunct1 [OF r] g]
    then have "set rest \<subseteq> set (snd (run_queue events []))"
      by (metis mset_eq_setD set_mset_add_mset_insert set_mset_mset subset_insertI)
    with h show "mset (snd (run_queue events [])) = add_mset item (mset rest)
            \<and> (\<forall>other \<in> set rest. qd_priority other \<le> qd_priority item)"
      by blast
  qed
  with dequeue_all_descending [OF put_all_ordered(1), of items] r queue_get_nonempty
  show ?thesis
    by (simp add: put_all_ordered(2))
qed

lemma dequeue_a_b_c: "dequeue_all (put_all [queued_a, queued_b, queued_c]) = [queued_b, queued_c, queued_a]"
  by code_simp

text \<open>
  The scenario of the specification, twice. When all three entries are in the queue
  before the processor takes one (its single slot is occupied), they are taken B, C, A.
  When the processor is waiting in \<open>get\<close> while A is put, it takes A at once, and B
  and C, put while A occupies the slot, follow in that order.
\<close>

lemma run_queue_slot_busy:
  "run_queue [Put queued_a, Put queued_b, Put queued_c, Get, Get, Get] []
   = ([queued_b, queued_c, queued_a], [])"
  by code_simp

lemma run_queue_processor_idle:
  "run_queue [Put queued_a, Get, Put queued_b, Put queued_c, Get, Get] []
   = ([queued_a, queued_b, queued_c], [])"
  by code_simp

lemma run_queue_a_b_c:
  "run_queue [Put queued_a, Get, Put queued_b, Put queued_c] [] = ([queued_a], [queued_b, queued_c])"
  "queue_get [queued_b, queued_c] = Some (queued_b, [queued_c])"
  by code_simp+

theorem dequeue_order_by_priority_witness:
  "dequeue_all (put_all [queued_a, queued_b, queued_c]) = [queued_b, queued_c, queued_a]
   \<and> sorted_wrt (\<lambda>a b. qd_priority a \<ge> qd_priority b) [queued_b, queued_c, queued_a]
   \<and> mset [queued_b, queued_c, queued_a] = mset [queued_a, queued_b, queued_c]
   \<and> run_queue [Put queued_a, Get, Put queued_b, Put queued_c] []
       = ([queued_a], [queued_b, queued_c])
   \<and> queue_get [queued_b, queued_c] = Some (queued_b, [queued_c])
   \<and> qd_priority queued_c \<le> qd_priority queued_b"
proof -
  note r = run_queue_a_b_c(1)
  from dequeue_order_by_priority [of "[queued_a, queued_b, queued_c]"
      "[Put queued_a, Get, Put queued_b, Put queued_c]" queued_b "[queued_c]"]
  show ?thesis
    unfolding r dequeue_a_b_c by (simp add: run_queue_a_b_c(2))
qed

text \<open>
  Entries of equal priority are not dequeued in insertion order: the entries carry no
  sequence number, and the heap takes the third of four equal entries before the second.
\<close>

theorem dequeue_order_fifo_counterexample:
  "dequeue_all (put_all [\<lparr>qd_priority = 0, qd_task = 0\<rparr>, \<lparr>qd_priority = 0, qd_task = 1\<rparr>,
                         \<lparr>qd_priority = 0, qd_task = 2\<rparr>, \<lparr>qd_priority = 0, qd_task = 3\<rparr>])
   = [\<lparr>qd_priority = 0, qd_task = 0\<rparr>, \<lparr>qd_priority = 0, qd_task = 2\<rparr>,
      \<lparr>qd_priority = 0, qd_task = 1\<rparr>, \<lparr>qd_priority = 0, qd_task = 3\<rparr>]"
  by code_simp

end
